theory Spec2Isabelle
  imports Main "HOL-Library.Word" "HOL-Library.AList"
begin

section \<open>Counter arithmetic of UidProcStatsCollector.cpp\<close>

text \<open>
  The counters of the collector are \<^verbatim>\<open>uint64_t\<close>; they are modelled as 64-bit words,
  on which \<open>+\<close>, \<open>-\<close> and \<open>*\<close> wrap around and \<open>\<le>\<close> and \<open><\<close> compare the unsigned
  values, as the C++ operators do.
\<close>

type_synonym u64 = "64 word"

text \<open>
  The CPU time and the start time of a process are \<^verbatim>\<open>int64_t\<close>: the stat line parser
  fills them with \<^verbatim>\<open>ParseInt\<close>. An \<^verbatim>\<open>int64_t\<close> is modelled as the 64-bit word of its
  two's complement representation, \<open>sint\<close> reads its value, \<open>+\<close>, \<open>-\<close> and \<open>*\<close> give the
  bits of the result, and the comparisons of the program are the signed ones, \<open>\<le>s\<close>
  and \<open><s\<close>.
\<close>

type_synonym i64 = "64 word"

definition kMaxUint64 :: u64 where
  "kMaxUint64 = 18446744073709551615"

text \<open>\<^verbatim>\<open>addUint64\<close>, lines 69-71.\<close>

definition addUint64 :: "u64 \<Rightarrow> u64 \<Rightarrow> u64" where
  "addUint64 l r = (if (kMaxUint64 - l) > r then (l + r) else kMaxUint64)"

text \<open>The lambda \<^verbatim>\<open>mul\<close> of \<^verbatim>\<open>readTimeInStateFile\<close>, lines 248-253.\<close>

definition mul :: "u64 \<Rightarrow> u64 \<Rightarrow> u64" where
  "mul l r =
     (if l = 0 \<or> r = 0 then 0
      else if (kMaxUint64 div r) > l then (l * r) else kMaxUint64)"

section \<open>Library functions of libbase used by the collector\<close>

text \<open>
  \<^verbatim>\<open>android::base::Split(s, delimiters)\<close> cuts \<open>s\<close> at every character that occurs in
  \<open>delimiters\<close> (it searches with \<^verbatim>\<open>find_first_of\<close>) and keeps empty pieces, so a
  string with \<open>n\<close> delimiter characters gives \<open>n + 1\<close> pieces. Every call in the
  collector passes a non-empty delimiter list.
\<close>

fun Split :: "string \<Rightarrow> string \<Rightarrow> string list" where
  "Split [] delimiters = [[]]"
| "Split (c # cs) delimiters =
     (if c \<in> set delimiters then [] # Split cs delimiters
      else (case Split cs delimiters of
              [] \<Rightarrow> [[c]]
            | piece # pieces \<Rightarrow> (c # piece) # pieces))"

definition EndsWith :: "string \<Rightarrow> string \<Rightarrow> bool" where
  "EndsWith s suffix \<longleftrightarrow>
     length suffix \<le> length s \<and> drop (length s - length suffix) s = suffix"

definition StartsWith :: "string \<Rightarrow> string \<Rightarrow> bool" where
  "StartsWith s prefix \<longleftrightarrow> take (length prefix) s = prefix"

text \<open>\<^verbatim>\<open>isspace\<close> in the C locale: space, and the control characters 9 to 13.\<close>

definition isspace :: "char \<Rightarrow> bool" where
  "isspace c \<longleftrightarrow> c \<in> set [CHR '' '', CHR 0x09, CHR 0x0A, CHR 0x0B, CHR 0x0C, CHR 0x0D]"

text \<open>\<^verbatim>\<open>android::base::Trim\<close> removes leading and trailing whitespace.\<close>

definition Trim :: "string \<Rightarrow> string" where
  "Trim s = rev (dropWhile isspace (rev (dropWhile isspace s)))"

text \<open>\<^verbatim>\<open>sub.find(tag) != npos\<close>: \<open>tag\<close> occurs in \<open>sub\<close> as a contiguous substring.\<close>

fun contains :: "string \<Rightarrow> string \<Rightarrow> bool" where
  "contains [] tag = (tag = [])"
| "contains (c # cs) tag = (StartsWith (c # cs) tag \<or> contains cs tag)"

text \<open>
  The number parsers \<^verbatim>\<open>ParseUint\<close> and \<^verbatim>\<open>ParseInt\<close>, the clock-tick constant and the
  process file system are not part of the collector. They are parameters of the model:
  a parser returns \<open>None\<close> where the C++ function returns \<^verbatim>\<open>false\<close>, a file read
  returns \<open>None\<close> where \<^verbatim>\<open>ReadFileToString\<close> fails, a directory is \<open>None\<close> where
  \<^verbatim>\<open>opendir\<close> fails and otherwise the sequence of entries \<^verbatim>\<open>readdir\<close> yields.
  \<^verbatim>\<open>ParseInt\<close> returns an \<^verbatim>\<open>int64_t\<close>.
\<close>

type_synonym pid_t = "32 word"
type_synonym uid_t = "32 word"

datatype procfile =
    StatFile pid_t
  | StatusFile pid_t
  | StatmFile pid_t
  | TaskStatFile pid_t pid_t
  | TaskTimeInStateFile pid_t pid_t

record dirent =
  d_isdir :: bool
  d_name :: string

record MemUsage =
  pss :: u64
  rss :: u64
  uss :: u64
  swap_pss :: u64

record env =
  ParseUint :: "string \<Rightarrow> u64 option"
  ParseInt :: "string \<Rightarrow> i64 option"
  ParseIntPid :: "string \<Rightarrow> pid_t option"
  clockTicksPerSecond :: nat
  ReadFileToString :: "procfile \<Rightarrow> string option"
  procDir :: "dirent list option"
  taskDir :: "pid_t \<Rightarrow> dirent list option"
  SmapsOrRollupFromFile :: "pid_t \<Rightarrow> MemUsage option"

section \<open>Status codes\<close>

text \<open>
  \<open>READ_ERROR\<close> and \<open>READ_WARNING\<close> are the codes of the enumeration \<^verbatim>\<open>ReadStatus\<close>;
  an \<^verbatim>\<open>Error()\<close> without a code carries 0, which is \<open>READ_ERROR\<close>. Two further
  outcomes are not codes of the program but places where it leaves the contract of
  \<^verbatim>\<open>std::string\<close>: \<open>EMPTY_STRING_ACCESS\<close> is \<^verbatim>\<open>front()\<close> called on an empty string
  (undefined behaviour), \<open>SUBSTR_OUT_OF_RANGE\<close> is \<^verbatim>\<open>substr(pos)\<close> with \<open>pos\<close> beyond
  the size (\<^verbatim>\<open>std::out_of_range\<close>).
\<close>

datatype failure = READ_ERROR | READ_WARNING | EMPTY_STRING_ACCESS | SUBSTR_OUT_OF_RANGE

section \<open>The stat line parser\<close>

record PidStat =
  comm :: string
  state :: string
  startTimeMillis :: i64
  cpuTimeMillis :: i64
  majorFaults :: u64

datatype parsed = Parsed PidStat | NotParsed | FrontOfEmptyComm

text \<open>
  The loop of lines 96-103 over \<open>fields[i]\<close>, \<open>fields[i + 1]\<close>, ...: the first argument
  is the rest of the fields from index \<open>i\<close> on, the result is the comm string and
  \<open>commEndOffset\<close> (which stays 0 when no field ends with a closing bracket).
\<close>

fun commLoop :: "string list \<Rightarrow> nat \<Rightarrow> string \<Rightarrow> string \<times> nat" where
  "commLoop [] i c = (c, 0)"
| "commLoop (f # fs) i c =
     (if EndsWith f '')'' then (c @ f, i - 1)
      else commLoop fs (Suc i) (c @ f @ '' ''))"

text \<open>\<^verbatim>\<open>parsePidStatLine\<close>, lines 86-124, called with a fresh \<open>PidStat\<close>.\<close>

definition parsePidStatLine :: "env \<Rightarrow> string \<Rightarrow> parsed" where
  "parsePidStatLine e line =
     (let fields = Split line '' '';
          (c, commEndOffset) = commLoop (tl fields) 1 []
      in if c = [] then FrontOfEmptyComm
         else if hd c \<noteq> CHR ''('' \<or> last c \<noteq> CHR '')'' then NotParsed
         else if length fields < 22 + commEndOffset then NotParsed
         else (case ParseUint e (fields ! (11 + commEndOffset)) of
                 None \<Rightarrow> NotParsed
               | Some majflt \<Rightarrow>
             (case ParseInt e (fields ! (13 + commEndOffset)) of
                 None \<Rightarrow> NotParsed
               | Some utime \<Rightarrow>
             (case ParseInt e (fields ! (14 + commEndOffset)) of
                 None \<Rightarrow> NotParsed
               | Some systemCpuTime \<Rightarrow>
             (case ParseInt e (fields ! (21 + commEndOffset)) of
                 None \<Rightarrow> NotParsed
               | Some starttime \<Rightarrow>
                 Parsed \<lparr>PidStat.comm = butlast (tl c),
                         state = fields ! (2 + commEndOffset),
                         PidStat.startTimeMillis = starttime,
                         PidStat.cpuTimeMillis = utime + systemCpuTime,
                         majorFaults = majflt\<rparr>)))))"

text \<open>\<^verbatim>\<open>readPidStatFile\<close>, lines 126-142.\<close>

definition readPidStatFile :: "env \<Rightarrow> procfile \<Rightarrow> u64 \<Rightarrow> failure + PidStat" where
  "readPidStatFile e path millisPerClockTick =
     (case ReadFileToString e path of
        None \<Rightarrow> Inl READ_WARNING
      | Some buffer \<Rightarrow>
          (let lines = Split buffer [CHR 0x0A]
           in if length lines \<noteq> 1 \<and> (length lines \<noteq> 2 \<or> lines ! 1 \<noteq> [])
              then Inl READ_ERROR
              else (case parsePidStatLine e (lines ! 0) of
                      FrontOfEmptyComm \<Rightarrow> Inl EMPTY_STRING_ACCESS
                    | NotParsed \<Rightarrow> Inl READ_ERROR
                    | Parsed pidStat \<Rightarrow>
                        Inr (pidStat\<lparr>PidStat.startTimeMillis :=
                                        PidStat.startTimeMillis pidStat * millisPerClockTick,
                                     PidStat.cpuTimeMillis :=
                                        PidStat.cpuTimeMillis pidStat * millisPerClockTick\<rparr>))))"

section \<open>The key-value reader\<close>

text \<open>
  \<^verbatim>\<open>getLinesWithTags\<close>, lines 144-168. The loop takes the pieces of the buffer between
  line feeds one after the other, which are the pieces \<open>Split\<close> gives; \<open>linesWithTags\<close>
  is its body, with the tags not found so far.
\<close>

fun linesWithTags :: "string list \<Rightarrow> string list \<Rightarrow> string list" where
  "linesWithTags [] notFoundTags = []"
| "linesWithTags (sub # rest) notFoundTags =
     (if notFoundTags = [] then []
      else (if list_ex (\<lambda>tag. contains sub tag) notFoundTags then [sub] else []) @
           linesWithTags rest (filter (\<lambda>tag. \<not> contains sub tag) notFoundTags))"

definition getLinesWithTags :: "string \<Rightarrow> string list \<Rightarrow> string list" where
  "getLinesWithTags buffer tags = linesWithTags (Split buffer [CHR 0x0A]) tags"

text \<open>
  The loop of \<^verbatim>\<open>readKeyValueFile\<close>, lines 179-196. The map \<open>contents\<close> is an association
  list with one entry for each key.
\<close>

fun keyValueLoop ::
  "string \<Rightarrow> string list \<Rightarrow> (string \<times> string) list \<Rightarrow> failure + (string \<times> string) list"
where
  "keyValueLoop delimiter [] contents = Inr contents"
| "keyValueLoop delimiter (line # lines) contents =
     (if line = [] then keyValueLoop delimiter lines contents
      else (let elements = Split line delimiter
            in if length elements < 2 then Inl READ_ERROR
               else (let key = elements ! 0
                     in if length line < length key + length delimiter
                        then Inl SUBSTR_OUT_OF_RANGE
                        else (let val = Trim (drop (length key + length delimiter) line)
                              in if map_of contents key \<noteq> None then Inl READ_ERROR
                                 else keyValueLoop delimiter lines
                                        (AList.update key val contents)))))"

definition readKeyValueFile ::
  "env \<Rightarrow> procfile \<Rightarrow> string \<Rightarrow> string list \<Rightarrow> failure + (string \<times> string) list"
where
  "readKeyValueFile e path delimiter tags =
     (case ReadFileToString e path of
        None \<Rightarrow> Inl READ_WARNING
      | Some buffer \<Rightarrow> keyValueLoop delimiter (getLinesWithTags buffer tags) [])"

text \<open>
  \<^verbatim>\<open>readPidStatusFile\<close>, lines 209-228. The two 64-bit values are converted to
  \<^verbatim>\<open>uid_t\<close> and \<^verbatim>\<open>pid_t\<close> when the tuple is made.
\<close>

definition readPidStatusFile :: "env \<Rightarrow> procfile \<Rightarrow> failure + (uid_t \<times> pid_t)" where
  "readPidStatusFile e path =
     (case readKeyValueFile e path [CHR '':'', CHR 0x09] [''Uid'', ''Tgid''] of
        Inl err \<Rightarrow> Inl err
      | Inr contents \<Rightarrow>
          if contents = [] then Inl READ_ERROR
          else (case map_of contents ''Uid'' of
                  None \<Rightarrow> Inl READ_ERROR
                | Some uidLine \<Rightarrow>
              (case ParseInt e (Split uidLine [CHR 0x09] ! 0) of
                  None \<Rightarrow> Inl READ_ERROR
                | Some uid \<Rightarrow>
              (case map_of contents ''Tgid'' of
                  None \<Rightarrow> Inl READ_ERROR
                | Some tgidLine \<Rightarrow>
              (case ParseInt e tgidLine of
                  None \<Rightarrow> Inl READ_ERROR
                | Some tgid \<Rightarrow> Inr (ucast uid, ucast tgid))))))"

section \<open>The time-in-state reader\<close>

definition cyclesPerKHzClockTicks :: "env \<Rightarrow> u64" where
  "cyclesPerKHzClockTicks e = word_of_nat (1000 div clockTicksPerSecond e)"

text \<open>The loop of \<^verbatim>\<open>readTimeInStateFile\<close>, lines 263-280.\<close>

fun timeInStateLoop :: "env \<Rightarrow> string list \<Rightarrow> u64 \<Rightarrow> failure + u64" where
  "timeInStateLoop e [] oneTenthCpuCycles = Inr oneTenthCpuCycles"
| "timeInStateLoop e (line # lines) oneTenthCpuCycles =
     (if line = [] \<or> StartsWith line ''cpu'' then timeInStateLoop e lines oneTenthCpuCycles
      else (let elements = Split line '' ''
            in if length elements < 2 then Inl READ_ERROR
               else (case ParseUint e (elements ! 0) of
                       None \<Rightarrow> Inl READ_ERROR
                     | Some freqKHz \<Rightarrow>
                   (case ParseUint e (Trim (elements ! 1)) of
                       None \<Rightarrow> Inl READ_ERROR
                     | Some clockTicks \<Rightarrow>
                         timeInStateLoop e lines
                           (addUint64 oneTenthCpuCycles (mul freqKHz clockTicks))))))"

text \<open>\<^verbatim>\<open>readTimeInStateFile\<close>, lines 247-285.\<close>

definition readTimeInStateFile :: "env \<Rightarrow> procfile \<Rightarrow> failure + u64" where
  "readTimeInStateFile e path =
     (case ReadFileToString e path of
        None \<Rightarrow> Inl READ_WARNING
      | Some buffer \<Rightarrow>
          (case timeInStateLoop e (Split buffer [CHR 0x0A]) 0 of
             Inl err \<Rightarrow> Inl err
           | Inr oneTenthCpuCycles \<Rightarrow>
               Inr (mul oneTenthCpuCycles (cyclesPerKHzClockTicks e))))"

section \<open>The statm reader\<close>

text \<open>\<^verbatim>\<open>readPidStatmFile\<close>, lines 294-313.\<close>

definition readPidStatmFile :: "env \<Rightarrow> procfile \<Rightarrow> failure + (u64 \<times> u64)" where
  "readPidStatmFile e path =
     (case ReadFileToString e path of
        None \<Rightarrow> Inl READ_WARNING
      | Some buffer \<Rightarrow>
          (let lines = Split buffer [CHR 0x0A]
           in if length lines \<noteq> 1 \<and> (length lines \<noteq> 2 \<or> lines ! 1 \<noteq> [])
              then Inl READ_ERROR
              else (let fields = Split (lines ! 0) '' ''
                    in if length fields < 6 then Inl READ_ERROR
                       else (case ParseUint e (fields ! 1) of
                               None \<Rightarrow> Inl READ_ERROR
                             | Some rssPages \<Rightarrow>
                           (case ParseUint e (fields ! 2) of
                               None \<Rightarrow> Inl READ_ERROR
                             | Some sharedPages \<Rightarrow> Inr (rssPages, sharedPages))))))"

section \<open>Snapshots and the collector\<close>

text \<open>
  The fields of \<^verbatim>\<open>ProcessStats\<close> and \<^verbatim>\<open>UidProcStats\<close> as the collector uses them:
  64-bit unsigned counters, \<^verbatim>\<open>int\<close> task counts, and the signed start time and CPU
  time, which line 571 and line 572 copy from the \<^verbatim>\<open>int64_t\<close> fields of the parsed stat
  line. An \<^verbatim>\<open>unordered_map\<close> is an association list with one entry for each key; the
  order of the list stands for the order in which the program iterates over the
  container, which is not specified.
\<close>

record ProcessStats =
  comm :: string
  startTimeMillis :: i64
  cpuTimeMillis :: i64
  totalCpuCycles :: u64
  totalMajorFaults :: u64
  totalTasksCount :: "32 word"
  ioBlockedTasksCount :: "32 word"
  cpuCyclesByTid :: "(pid_t \<times> u64) list"
  rssKb :: u64
  pssKb :: u64
  ussKb :: u64
  swapPssKb :: u64

record UidProcStats =
  cpuTimeMillis :: i64
  cpuCycles :: u64
  totalMajorFaults :: u64
  totalTasksCount :: "32 word"
  ioBlockedTasksCount :: "32 word"
  totalRssKb :: u64
  totalPssKb :: u64
  processStatsByPid :: "(pid_t \<times> ProcessStats) list"

type_synonym snapshot = "(uid_t \<times> UidProcStats) list"

record UidProcStatsCollector =
  mIsMemoryProfilingEnabled :: bool
  mIsSmapsRollupSupported :: bool
  mIsEnabled :: bool
  mIsTimeInStateEnabled :: bool
  mMillisPerClockTick :: u64
  mPageSizeKb :: u64
  mLatestStats :: snapshot
  mDeltaStats :: snapshot

text \<open>A value-initialised \<^verbatim>\<open>UidProcStats\<close>, as in \<^verbatim>\<open>uidProcStatsByUid[uid] = {}\<close>.\<close>

definition emptyUidProcStats :: UidProcStats where
  "emptyUidProcStats =
     \<lparr>UidProcStats.cpuTimeMillis = 0, cpuCycles = 0, UidProcStats.totalMajorFaults = 0,
      UidProcStats.totalTasksCount = 0, UidProcStats.ioBlockedTasksCount = 0,
      totalRssKb = 0, totalPssKb = 0,
      processStatsByPid = []\<rparr>"

subsection \<open>Reading one process\<close>

text \<open>
  \<^verbatim>\<open>readSmapsRollup\<close>, lines 667-681: the flag it returns and the statistics it leaves
  in the record it was given.
\<close>

definition readSmapsRollup ::
  "UidProcStatsCollector \<Rightarrow> env \<Rightarrow> pid_t \<Rightarrow> ProcessStats \<Rightarrow> bool \<times> ProcessStats"
where
  "readSmapsRollup c e pid processStats =
     (if \<not> mIsSmapsRollupSupported c then (False, processStats)
      else (case SmapsOrRollupFromFile e pid of
              None \<Rightarrow> (False, processStats)
            | Some memUsage \<Rightarrow>
                (pss memUsage > 0 \<and> rss memUsage > 0 \<and> uss memUsage > 0,
                 processStats\<lparr>pssKb := pss memUsage, rssKb := rss memUsage,
                              ussKb := uss memUsage, swapPssKb := swap_pss memUsage\<rparr>)))"

text \<open>The statm fallback, lines 594-598, from the two page counts of the statm file.\<close>

definition statmFallback :: "u64 \<Rightarrow> u64 \<times> u64 \<Rightarrow> ProcessStats \<Rightarrow> ProcessStats" where
  "statmFallback pageSizeKb result processStats =
     (let rssKb' = fst result * pageSizeKb;
          ussKb' = rssKb' - (snd result * pageSizeKb)
      in processStats\<lparr>rssKb := rssKb', ussKb := (if ussKb' < rssKb' then ussKb' else 0)\<rparr>)"

text \<open>
  The search of lines 550-558 for the UID that owned the PID, with the same start time,
  in the latest snapshot.
\<close>

fun findUidOfPid :: "snapshot \<Rightarrow> pid_t \<Rightarrow> u64 \<Rightarrow> uid_t option" where
  "findUidOfPid [] pid start = None"
| "findUidOfPid ((curUid, uidProcStats) # rest) pid start =
     (case map_of (processStatsByPid uidProcStats) pid of
        None \<Rightarrow> findUidOfPid rest pid start
      | Some processStats \<Rightarrow>
          if ProcessStats.startTimeMillis processStats = start then Some curUid
          else findUidOfPid rest pid start)"

text \<open>
  The loop over the task directory, lines 606-653. Where the program returns
  \<^verbatim>\<open>Error()\<close> for a status other than \<open>READ_WARNING\<close>, the model passes the status on:
  for \<open>READ_ERROR\<close> that is the code 0 of \<^verbatim>\<open>Error()\<close>, and an access outside the
  contract of the string stays what it is.
\<close>

fun readThreads ::
  "UidProcStatsCollector \<Rightarrow> env \<Rightarrow> pid_t \<Rightarrow> dirent list \<Rightarrow> ProcessStats \<Rightarrow>
   failure + ProcessStats"
where
  "readThreads c e pid [] processStats = Inr processStats"
| "readThreads c e pid (tidDir # rest) processStats =
     (if \<not> d_isdir tidDir then readThreads c e pid rest processStats
      else (case ParseIntPid e (d_name tidDir) of
              None \<Rightarrow> readThreads c e pid rest processStats
            | Some tid \<Rightarrow>
          (case (if tid \<noteq> pid
                 then (case readPidStatFile e (TaskStatFile pid tid) (mMillisPerClockTick c) of
                         Inl err \<Rightarrow> Inl err
                       | Inr tidStat \<Rightarrow>
                           Inr (processStats
                                  \<lparr>ProcessStats.ioBlockedTasksCount :=
                                     ProcessStats.ioBlockedTasksCount processStats +
                                     (if PidStat.state tidStat = ''D'' then 1 else 0),
                                   ProcessStats.totalTasksCount :=
                                     ProcessStats.totalTasksCount processStats + 1\<rparr>))
                 else Inr processStats) of
             Inl err \<Rightarrow>
               if err \<noteq> READ_WARNING then Inl err
               else readThreads c e pid rest processStats
           | Inr processStats1 \<Rightarrow>
               if \<not> mIsTimeInStateEnabled c then readThreads c e pid rest processStats1
               else (case readTimeInStateFile e (TaskTimeInStateFile pid tid) of
                       Inl err \<Rightarrow>
                         if err \<noteq> READ_WARNING then Inl err
                         else readThreads c e pid rest processStats1
                     | Inr tidCpuCycles \<Rightarrow>
                         if tidCpuCycles \<le> 0 then readThreads c e pid rest processStats1
                         else readThreads c e pid rest
                                (processStats1
                                   \<lparr>totalCpuCycles :=
                                      addUint64 (totalCpuCycles processStats1) tidCpuCycles,
                                    cpuCyclesByTid :=
                                      AList.update tid tidCpuCycles
                                        (cpuCyclesByTid processStats1)\<rparr>)))))"

text \<open>Step 2 of \<^verbatim>\<open>readProcessStatsLocked\<close>, lines 542-562: the UID and the TGID.\<close>

definition readUidAndTgid ::
  "UidProcStatsCollector \<Rightarrow> env \<Rightarrow> pid_t \<Rightarrow> PidStat \<Rightarrow> failure + (uid_t \<times> pid_t)"
where
  "readUidAndTgid c e pid pidStat =
     (case readPidStatusFile e (StatusFile pid) of
        Inl err \<Rightarrow>
          if err \<noteq> READ_WARNING then Inl err
          else (case findUidOfPid (mLatestStats c) pid (PidStat.startTimeMillis pidStat) of
                  Some curUid \<Rightarrow> Inr (curUid, pid)
                | None \<Rightarrow> Inr (- 1, - 1))
      | Inr result \<Rightarrow> Inr result)"

text \<open>Step 3, lines 584-600: the memory usage summary.\<close>

definition readMemory ::
  "UidProcStatsCollector \<Rightarrow> env \<Rightarrow> pid_t \<Rightarrow> ProcessStats \<Rightarrow> failure + ProcessStats"
where
  "readMemory c e pid processStats =
     (if \<not> mIsMemoryProfilingEnabled c then Inr processStats
      else (case readSmapsRollup c e pid processStats of
              (True, processStats1) \<Rightarrow> Inr processStats1
            | (False, processStats1) \<Rightarrow>
                (case readPidStatmFile e (StatmFile pid) of
                   Inl err \<Rightarrow> if err \<noteq> READ_WARNING then Inl err else Inr processStats1
                 | Inr result \<Rightarrow> Inr (statmFallback (mPageSizeKb c) result processStats1))))"

text \<open>\<^verbatim>\<open>readProcessStatsLocked\<close>, lines 530-655.\<close>

definition readProcessStatsLocked ::
  "UidProcStatsCollector \<Rightarrow> env \<Rightarrow> pid_t \<Rightarrow> failure + (uid_t \<times> ProcessStats)"
where
  "readProcessStatsLocked c e pid =
     (case readPidStatFile e (StatFile pid) (mMillisPerClockTick c) of
        Inl err \<Rightarrow> Inl err
      | Inr pidStat \<Rightarrow>
     (case readUidAndTgid c e pid pidStat of
        Inl err \<Rightarrow> Inl err
      | Inr (uid, tgid) \<Rightarrow>
          if uid = - 1 \<or> tgid \<noteq> pid then Inl READ_WARNING
          else (case readMemory c e pid
                       \<lparr>ProcessStats.comm = PidStat.comm pidStat,
                        ProcessStats.startTimeMillis = PidStat.startTimeMillis pidStat,
                        ProcessStats.cpuTimeMillis = PidStat.cpuTimeMillis pidStat,
                        totalCpuCycles = 0,
                        ProcessStats.totalMajorFaults = majorFaults pidStat,
                        ProcessStats.totalTasksCount = 1,
                        ProcessStats.ioBlockedTasksCount =
                          (if PidStat.state pidStat = ''D'' then 1 else 0),
                        cpuCyclesByTid = [],
                        rssKb = 0, pssKb = 0, ussKb = 0, swapPssKb = 0\<rparr> of
                  Inl err \<Rightarrow> Inl err
                | Inr processStats \<Rightarrow>
                    (case taskDir e pid of
                       None \<Rightarrow> Inr (uid, processStats)
                     | Some entries \<Rightarrow>
                         (case readThreads c e pid entries processStats of
                            Inl err \<Rightarrow> Inl err
                          | Inr processStats1 \<Rightarrow> Inr (uid, processStats1))))))"

subsection \<open>Folding processes into UIDs\<close>

text \<open>
  The entry of a UID in the map under construction, value-initialised when the UID is
  new (lines 514-517).
\<close>

definition entryOrEmpty :: "snapshot \<Rightarrow> uid_t \<Rightarrow> UidProcStats" where
  "entryOrEmpty uidProcStatsByUid uid =
     (case map_of uidProcStatsByUid uid of
        None \<Rightarrow> emptyUidProcStats
      | Some found \<Rightarrow> found)"

text \<open>Lines 512-525 of \<^verbatim>\<open>readUidProcStatsLocked\<close>: one process added to its UID.\<close>

definition foldProcessStats ::
  "uid_t \<Rightarrow> pid_t \<Rightarrow> ProcessStats \<Rightarrow> snapshot \<Rightarrow> snapshot"
where
  "foldProcessStats uid pid processStats uidProcStatsByUid =
     (let uidProcStats = entryOrEmpty uidProcStatsByUid uid
      in AList.update uid
           (uidProcStats
              \<lparr>UidProcStats.cpuTimeMillis :=
                 UidProcStats.cpuTimeMillis uidProcStats +
                 ProcessStats.cpuTimeMillis processStats,
               cpuCycles := addUint64 (cpuCycles uidProcStats) (totalCpuCycles processStats),
               UidProcStats.totalMajorFaults :=
                 UidProcStats.totalMajorFaults uidProcStats +
                 ProcessStats.totalMajorFaults processStats,
               UidProcStats.totalTasksCount :=
                 UidProcStats.totalTasksCount uidProcStats +
                 ProcessStats.totalTasksCount processStats,
               UidProcStats.ioBlockedTasksCount :=
                 UidProcStats.ioBlockedTasksCount uidProcStats +
                 ProcessStats.ioBlockedTasksCount processStats,
               totalRssKb := totalRssKb uidProcStats + rssKb processStats,
               totalPssKb := totalPssKb uidProcStats + pssKb processStats,
               processStatsByPid :=
                 AList.update pid processStats (processStatsByPid uidProcStats)\<rparr>)
           uidProcStatsByUid)"

text \<open>The loop over the entries of the root directory, lines 497-526.\<close>

fun readPids ::
  "UidProcStatsCollector \<Rightarrow> env \<Rightarrow> dirent list \<Rightarrow> snapshot \<Rightarrow> failure + snapshot"
where
  "readPids c e [] uidProcStatsByUid = Inr uidProcStatsByUid"
| "readPids c e (pidDir # rest) uidProcStatsByUid =
     (if \<not> d_isdir pidDir then readPids c e rest uidProcStatsByUid
      else (case ParseIntPid e (d_name pidDir) of
              None \<Rightarrow> readPids c e rest uidProcStatsByUid
            | Some pid \<Rightarrow>
                (case readProcessStatsLocked c e pid of
                   Inl err \<Rightarrow>
                     if err \<noteq> READ_WARNING then Inl err
                     else readPids c e rest uidProcStatsByUid
                 | Inr (uid, processStats) \<Rightarrow>
                     readPids c e rest
                       (foldProcessStats uid pid processStats uidProcStatsByUid))))"

text \<open>\<^verbatim>\<open>readUidProcStatsLocked\<close>, lines 490-528.\<close>

definition readUidProcStatsLocked :: "UidProcStatsCollector \<Rightarrow> env \<Rightarrow> failure + snapshot" where
  "readUidProcStatsLocked c e =
     (case procDir e of
        None \<Rightarrow> Inl READ_ERROR
      | Some entries \<Rightarrow> readPids c e entries [])"

subsection \<open>The delta snapshot\<close>

text \<open>Lines 467-472: the delta of one thread against the previous cycles of the process.\<close>

definition deltaThreadCpuCycles :: "(pid_t \<times> u64) list \<Rightarrow> pid_t \<Rightarrow> u64 \<Rightarrow> u64" where
  "deltaThreadCpuCycles prevCpuCyclesByTid tid threadCpuCycles =
     (case map_of prevCpuCyclesByTid tid of
        None \<Rightarrow> threadCpuCycles
      | Some prevCycles \<Rightarrow>
          if prevCycles \<le> threadCpuCycles then threadCpuCycles - prevCycles
          else threadCpuCycles)"

text \<open>Lines 466-476: the body of the loop over the threads of the current process.\<close>

definition threadStep :: "ProcessStats \<Rightarrow> pid_t \<times> u64 \<Rightarrow> ProcessStats \<Rightarrow> ProcessStats" where
  "threadStep prevProcessStats entry deltaProcessStats =
     (let deltaThread =
            deltaThreadCpuCycles (cpuCyclesByTid prevProcessStats) (fst entry) (snd entry)
      in deltaProcessStats
           \<lparr>cpuCyclesByTid :=
              AList.update (fst entry) deltaThread (cpuCyclesByTid deltaProcessStats),
            totalCpuCycles := addUint64 (totalCpuCycles deltaProcessStats) deltaThread\<rparr>)"

text \<open>
  Lines 452-477: the delta of one process of the current snapshot. The comparison of the
  CPU times at line 457 is the one of \<^verbatim>\<open>int64_t\<close>, the comparison of the major faults at
  line 460 the one of \<^verbatim>\<open>uint64_t\<close>.
\<close>

definition deltaProcess ::
  "(pid_t \<times> ProcessStats) list \<Rightarrow> pid_t \<Rightarrow> ProcessStats \<Rightarrow> ProcessStats"
where
  "deltaProcess prevProcessStatsByPid pid processStats =
     (case map_of prevProcessStatsByPid pid of
        None \<Rightarrow> processStats
      | Some prevProcessStats \<Rightarrow>
          if ProcessStats.startTimeMillis prevProcessStats =
             ProcessStats.startTimeMillis processStats
          then
            (let d1 = (if ProcessStats.cpuTimeMillis prevProcessStats \<le>s
                          ProcessStats.cpuTimeMillis processStats
                       then processStats
                              \<lparr>ProcessStats.cpuTimeMillis :=
                                 ProcessStats.cpuTimeMillis processStats -
                                 ProcessStats.cpuTimeMillis prevProcessStats\<rparr>
                       else processStats);
                 d2 = (if ProcessStats.totalMajorFaults prevProcessStats \<le>
                          ProcessStats.totalMajorFaults d1
                       then d1\<lparr>ProcessStats.totalMajorFaults :=
                                  ProcessStats.totalMajorFaults d1 -
                                  ProcessStats.totalMajorFaults prevProcessStats\<rparr>
                       else d1)
             in fold (threadStep prevProcessStats) (cpuCyclesByTid processStats)
                  (d2\<lparr>totalCpuCycles := 0\<rparr>))
          else processStats)"

text \<open>Lines 451-483: the body of the loop over the processes of the current UID.\<close>

definition processStep ::
  "UidProcStats \<Rightarrow> pid_t \<times> ProcessStats \<Rightarrow> UidProcStats \<Rightarrow> UidProcStats"
where
  "processStep prevUidStats entry deltaUidStats =
     (let deltaProcessStats =
            deltaProcess (processStatsByPid prevUidStats) (fst entry) (snd entry)
      in deltaUidStats
           \<lparr>UidProcStats.cpuTimeMillis :=
              UidProcStats.cpuTimeMillis deltaUidStats +
              ProcessStats.cpuTimeMillis deltaProcessStats,
            cpuCycles := addUint64 (cpuCycles deltaUidStats) (totalCpuCycles deltaProcessStats),
            UidProcStats.totalMajorFaults :=
              UidProcStats.totalMajorFaults deltaUidStats +
              ProcessStats.totalMajorFaults deltaProcessStats,
            processStatsByPid :=
              AList.update (fst entry) deltaProcessStats (processStatsByPid deltaUidStats)\<rparr>)"

text \<open>Lines 438-484: the delta of one UID of the current snapshot.\<close>

definition deltaUid :: "snapshot \<Rightarrow> uid_t \<Rightarrow> UidProcStats \<Rightarrow> UidProcStats" where
  "deltaUid latestStats uid currUidStats =
     (case map_of latestStats uid of
        None \<Rightarrow> currUidStats
      | Some prevUidStats \<Rightarrow>
          fold (processStep prevUidStats) (processStatsByPid currUidStats)
            \<lparr>UidProcStats.cpuTimeMillis = 0, cpuCycles = 0,
             UidProcStats.totalMajorFaults = 0,
             UidProcStats.totalTasksCount = UidProcStats.totalTasksCount currUidStats,
             UidProcStats.ioBlockedTasksCount = UidProcStats.ioBlockedTasksCount currUidStats,
             totalRssKb = totalRssKb currUidStats,
             totalPssKb = totalPssKb currUidStats,
             processStatsByPid = []\<rparr>)"

text \<open>Lines 436-485: the delta snapshot, from the latest snapshot and the current one.\<close>

definition computeDelta :: "snapshot \<Rightarrow> snapshot \<Rightarrow> snapshot" where
  "computeDelta latestStats uidProcStatsByUid =
     fold (\<lambda>entry mDelta. AList.update (fst entry) (deltaUid latestStats (fst entry) (snd entry)) mDelta)
       uidProcStatsByUid []"

subsection \<open>The entry point\<close>

text \<open>
  \<^verbatim>\<open>collect\<close>, lines 425-488: the result (\<open>Inr ()\<close> for success) and the collector after
  the call.
\<close>

definition collect ::
  "UidProcStatsCollector \<Rightarrow> env \<Rightarrow> (failure + unit) \<times> UidProcStatsCollector"
where
  "collect c e =
     (if \<not> mIsEnabled c then (Inl READ_ERROR, c)
      else (case readUidProcStatsLocked c e of
              Inl err \<Rightarrow> (Inl err, c)
            | Inr uidProcStatsByUid \<Rightarrow>
                (Inr (),
                 c\<lparr>mDeltaStats := computeDelta (mLatestStats c) uidProcStatsByUid,
                   mLatestStats := uidProcStatsByUid\<rparr>)))"

text \<open>The accessors return copies of the two snapshots.\<close>

definition latestStats :: "UidProcStatsCollector \<Rightarrow> snapshot" where
  "latestStats c = mLatestStats c"

definition deltaStats :: "UidProcStatsCollector \<Rightarrow> snapshot" where
  "deltaStats c = mDeltaStats c"

section \<open>Notions for the properties\<close>

text \<open>The sum of a list of counters with \<open>addUint64\<close>, from 0.\<close>

definition saturatedSum :: "u64 list \<Rightarrow> u64" where
  "saturatedSum xs = fold (\<lambda>x acc. addUint64 acc x) xs 0"

text \<open>
  The processes that the loop of \<^verbatim>\<open>readUidProcStatsLocked\<close> folds into the snapshot: the
  entries that are directories with a numeric name whose statistics were read.
\<close>

fun readProcesses ::
  "UidProcStatsCollector \<Rightarrow> env \<Rightarrow> dirent list \<Rightarrow> (uid_t \<times> pid_t \<times> ProcessStats) list"
where
  "readProcesses c e [] = []"
| "readProcesses c e (pidDir # rest) =
     (if \<not> d_isdir pidDir then readProcesses c e rest
      else (case ParseIntPid e (d_name pidDir) of
              None \<Rightarrow> readProcesses c e rest
            | Some pid \<Rightarrow>
                (case readProcessStatsLocked c e pid of
                   Inl err \<Rightarrow> readProcesses c e rest
                 | Inr (uid, processStats) \<Rightarrow>
                     (uid, pid, processStats) # readProcesses c e rest)))"

text \<open>
  What the collector establishes for the snapshots it builds when every PID and every
  TID is listed once: each map has one entry for each key, the cycles of a process are
  the saturated sum of the cycles of its threads, and the aggregates of a UID are the
  sums over its processes, added as \<^verbatim>\<open>readUidProcStatsLocked\<close> adds them.
\<close>

definition wellFormedProcess :: "ProcessStats \<Rightarrow> bool" where
  "wellFormedProcess p \<longleftrightarrow>
     distinct (map fst (cpuCyclesByTid p)) \<and>
     totalCpuCycles p = saturatedSum (map snd (cpuCyclesByTid p))"

definition wellFormedUid :: "UidProcStats \<Rightarrow> bool" where
  "wellFormedUid u \<longleftrightarrow>
     distinct (map fst (processStatsByPid u)) \<and>
     list_all (\<lambda>entry. wellFormedProcess (snd entry)) (processStatsByPid u) \<and>
     UidProcStats.cpuTimeMillis u =
       sum_list (map (\<lambda>entry. ProcessStats.cpuTimeMillis (snd entry)) (processStatsByPid u)) \<and>
     cpuCycles u =
       saturatedSum (map (\<lambda>entry. totalCpuCycles (snd entry)) (processStatsByPid u)) \<and>
     UidProcStats.totalMajorFaults u =
       sum_list (map (\<lambda>entry. ProcessStats.totalMajorFaults (snd entry)) (processStatsByPid u)) \<and>
     UidProcStats.totalTasksCount u =
       sum_list (map (\<lambda>entry. ProcessStats.totalTasksCount (snd entry)) (processStatsByPid u)) \<and>
     UidProcStats.ioBlockedTasksCount u =
       sum_list (map (\<lambda>entry. ProcessStats.ioBlockedTasksCount (snd entry))
                   (processStatsByPid u)) \<and>
     totalRssKb u = sum_list (map (\<lambda>entry. rssKb (snd entry)) (processStatsByPid u)) \<and>
     totalPssKb u = sum_list (map (\<lambda>entry. pssKb (snd entry)) (processStatsByPid u))"

definition wellFormed :: "snapshot \<Rightarrow> bool" where
  "wellFormed s \<longleftrightarrow>
     distinct (map fst s) \<and> list_all (\<lambda>entry. wellFormedUid (snd entry)) s"

text \<open>
  The PIDs, or the TIDs, that a directory listing gives: the numeric names of the
  entries that are directories.
\<close>

definition listedIds :: "env \<Rightarrow> dirent list \<Rightarrow> pid_t list" where
  "listedIds e entries =
     List.map_filter (\<lambda>d. if d_isdir d then ParseIntPid e (d_name d) else None) entries"

text \<open>
  Every unsigned counter of the process \<open>d\<close> is at most the counter of \<open>c\<close>; the task
  counts, which the delta copies, are the same.
\<close>

definition processCountersLe :: "ProcessStats \<Rightarrow> ProcessStats \<Rightarrow> bool" where
  "processCountersLe d c \<longleftrightarrow>
     totalCpuCycles d \<le> totalCpuCycles c \<and>
     ProcessStats.totalMajorFaults d \<le> ProcessStats.totalMajorFaults c \<and>
     ProcessStats.totalTasksCount d = ProcessStats.totalTasksCount c \<and>
     ProcessStats.ioBlockedTasksCount d = ProcessStats.ioBlockedTasksCount c \<and>
     rssKb d \<le> rssKb c \<and> pssKb d \<le> pssKb c \<and> ussKb d \<le> ussKb c \<and>
     swapPssKb d \<le> swapPssKb c \<and>
     (\<forall>tid x. map_of (cpuCyclesByTid d) tid = Some x \<longrightarrow>
        (\<exists>y. map_of (cpuCyclesByTid c) tid = Some y \<and> x \<le> y))"

text \<open>
  The CPU time of the process \<open>d\<close> is not negative and at most the CPU time of \<open>c\<close>, as
  signed numbers.
\<close>

definition cpuTimeWithin :: "ProcessStats \<Rightarrow> ProcessStats \<Rightarrow> bool" where
  "cpuTimeWithin d c \<longleftrightarrow>
     0 \<le>s ProcessStats.cpuTimeMillis d \<and>
     ProcessStats.cpuTimeMillis d \<le>s ProcessStats.cpuTimeMillis c"

text \<open>No process of the UID has a negative CPU time.\<close>

definition cpuTimesNonNegative :: "UidProcStats \<Rightarrow> bool" where
  "cpuTimesNonNegative u \<longleftrightarrow>
     list_all (\<lambda>entry. 0 \<le>s ProcessStats.cpuTimeMillis (snd entry)) (processStatsByPid u)"

section \<open>Concrete inputs\<close>

text \<open>
  For concrete inputs the parsers are instantiated with a reader of plain decimal
  numerals (digits only, within the range of the type); on such strings \<^verbatim>\<open>ParseUint\<close>
  and \<^verbatim>\<open>ParseInt\<close> return the number the digits denote.
\<close>

definition isdigit :: "char \<Rightarrow> bool" where
  "isdigit c \<longleftrightarrow> 48 \<le> (of_char c :: int) \<and> (of_char c :: int) \<le> 57"

definition digits :: "int \<Rightarrow> string \<Rightarrow> int option" where
  "digits limit s =
     (if s \<noteq> [] \<and> list_all isdigit s
      then (let n = fold (\<lambda>c n. 10 * n + (of_char c - 48)) s 0
            in if n \<le> limit then Some n else None)
      else None)"

definition digitsUint :: "string \<Rightarrow> u64 option" where
  "digitsUint s = map_option word_of_int (digits 18446744073709551615 s)"

definition digitsInt :: "string \<Rightarrow> u64 option" where
  "digitsInt s = map_option word_of_int (digits 9223372036854775807 s)"

definition digitsPid :: "string \<Rightarrow> pid_t option" where
  "digitsPid s = map_option word_of_int (digits 2147483647 s)"

definition decimalEnv ::
  "(procfile \<Rightarrow> string option) \<Rightarrow> dirent list option \<Rightarrow> (pid_t \<Rightarrow> dirent list option) \<Rightarrow> env"
where
  "decimalEnv files root tasks =
     \<lparr>ParseUint = digitsUint, ParseInt = digitsInt, ParseIntPid = digitsPid,
      clockTicksPerSecond = 100, ReadFileToString = files, procDir = root,
      taskDir = tasks, SmapsOrRollupFromFile = (\<lambda>pid. None)\<rparr>"

text \<open>An environment with the single file \<open>path\<close> and no directories.\<close>

definition oneFile :: "procfile \<Rightarrow> string \<Rightarrow> env" where
  "oneFile path buffer =
     decimalEnv (\<lambda>p. if p = path then Some buffer else None) None (\<lambda>pid. None)"

text \<open>
  A stat line with the given comm in brackets as field 1, state \<open>S\<close>, 220 major
  faults, 10 and 20 clock ticks of user and system time and start time 500.
\<close>

definition statLine :: "string \<Rightarrow> string" where
  "statLine c = ''1 ('' @ c @ '') S 0 0 0 0 0 0 0 0 220 0 10 20 0 0 0 0 2 0 500''"

definition noFiles :: env where
  "noFiles = decimalEnv (\<lambda>p. None) None (\<lambda>pid. None)"

text \<open>
  A process file system with the single process 1 of UID 1000, whose statm file has 50
  resident and no shared pages, and a collector with memory profiling, without
  smaps_rollup, with 10 ms per clock tick and pages of 4 KiB.
\<close>

definition procfs1 :: env where
  "procfs1 =
     decimalEnv
       (\<lambda>p. if p = StatFile 1 then Some (statLine ''init'')
            else if p = StatusFile 1
            then Some (''Name:'' @ [CHR 0x09] @ ''init'' @ [CHR 0x0A] @
                       ''Tgid:'' @ [CHR 0x09] @ ''1'' @ [CHR 0x0A] @
                       ''Uid:'' @ [CHR 0x09] @ ''1000'' @ [CHR 0x09] @ ''1000'' @
                       [CHR 0x09] @ ''1000'' @ [CHR 0x09] @ ''1000'' @ [CHR 0x0A])
            else if p = StatmFile 1 then Some (''100 50 0 10 0 20 0'' @ [CHR 0x0A])
            else None)
       (Some [\<lparr>d_isdir = False, d_name = ''uptime''\<rparr>, \<lparr>d_isdir = True, d_name = ''1''\<rparr>])
       (\<lambda>pid. None)"

definition collector1 :: UidProcStatsCollector where
  "collector1 =
     \<lparr>mIsMemoryProfilingEnabled = True, mIsSmapsRollupSupported = False,
      mIsEnabled = True, mIsTimeInStateEnabled = False,
      mMillisPerClockTick = 10, mPageSizeKb = 4,
      mLatestStats = [], mDeltaStats = []\<rparr>"

text \<open>
  A process file system with the processes 1, 2 and 3 of UID 1000, each with the given
  user time in clock ticks and the given major faults, no system time and start time 500; and a collector without
  memory profiling and time in state, with 10 ms per clock tick.
\<close>

definition statLineWith :: "string \<Rightarrow> string \<Rightarrow> string" where
  "statLineWith utime majflt =
     ''1 (app) S 0 0 0 0 0 0 0 0 '' @ majflt @ '' 0 '' @ utime @ '' 0 0 0 0 0 2 0 500''"

definition statusOf :: "string \<Rightarrow> string" where
  "statusOf tgid =
     ''Tgid:'' @ [CHR 0x09] @ tgid @ [CHR 0x0A] @
     ''Uid:'' @ [CHR 0x09] @ ''1000'' @ [CHR 0x09] @ ''1000'' @ [CHR 0x09] @ ''1000'' @
     [CHR 0x09] @ ''1000'' @ [CHR 0x0A]"

definition procfs3 :: "string \<Rightarrow> string \<Rightarrow> env" where
  "procfs3 utime majflt =
     decimalEnv
       (\<lambda>p. if p = StatFile 1 \<or> p = StatFile 2 \<or> p = StatFile 3 
            then Some (statLineWith utime majflt)
            else if p = StatusFile 1 then Some (statusOf ''1'')
            else if p = StatusFile 2 then Some (statusOf ''2'')
            else if p = StatusFile 3 then Some (statusOf ''3'')
            else None)
       (Some [\<lparr>d_isdir = True, d_name = ''1''\<rparr>, \<lparr>d_isdir = True, d_name = ''2''\<rparr>,
              \<lparr>d_isdir = True, d_name = ''3''\<rparr>])
       (\<lambda>pid. None)"

definition collector0 :: UidProcStatsCollector where
  "collector0 =
     \<lparr>mIsMemoryProfilingEnabled = False, mIsSmapsRollupSupported = False,
      mIsEnabled = True, mIsTimeInStateEnabled = False,
      mMillisPerClockTick = 10, mPageSizeKb = 4,
      mLatestStats = [], mDeltaStats = []\<rparr>"

text \<open>The statistics of one such process and of the UID 1000 with the three of them.\<close>

definition appProcess :: "i64 \<Rightarrow> u64 \<Rightarrow> ProcessStats" where
  "appProcess cpu faults =
     \<lparr>ProcessStats.comm = ''app'', ProcessStats.startTimeMillis = 5000,
      ProcessStats.cpuTimeMillis = cpu, totalCpuCycles = 0,
      ProcessStats.totalMajorFaults = faults, ProcessStats.totalTasksCount = 1,
      ProcessStats.ioBlockedTasksCount = 0, cpuCyclesByTid = [],
      rssKb = 0, pssKb = 0, ussKb = 0, swapPssKb = 0\<rparr>"

definition appUid :: "i64 \<Rightarrow> u64 \<Rightarrow> i64 \<Rightarrow> u64 \<Rightarrow> UidProcStats" where
  "appUid uidCpu uidFaults cpu faults =
     \<lparr>UidProcStats.cpuTimeMillis = uidCpu, cpuCycles = 0,
      UidProcStats.totalMajorFaults = uidFaults, UidProcStats.totalTasksCount = 3,
      UidProcStats.ioBlockedTasksCount = 0, totalRssKb = 0, totalPssKb = 0,
      processStatsByPid =
        [(1, appProcess cpu faults), (2, appProcess cpu faults), (3, appProcess cpu faults)]\<rparr>"

text \<open>
  A process file system whose process 1 has a stat file without brackets around the
  comm, and a collector that holds the snapshots of an earlier collection.
\<close>

definition procfsBad :: env where
  "procfsBad =
     decimalEnv (\<lambda>p. if p = StatFile 1 then Some ''1 init S'' else None)
       (Some [\<lparr>d_isdir = True, d_name = ''1''\<rparr>]) (\<lambda>pid. None)"

definition collectorAfter :: UidProcStatsCollector where
  "collectorAfter =
     collector0\<lparr>mLatestStats := [(1000, appUid 30 660 10 220)],
                mDeltaStats := [(1000, appUid 30 660 10 220)]\<rparr>"

text \<open>
  Two snapshots of the UID 1000. Between them process 1000 runs on (its thread 1002 has
  gone), the PID 2000 is reused by a process with another start time, and the counters
  of process 3000 are below the previous ones. The UID 2000 is new in the second.
\<close>

definition threadedProcess :: "i64 \<Rightarrow> i64 \<Rightarrow> u64 \<Rightarrow> (pid_t \<times> u64) list \<Rightarrow> ProcessStats" where
  "threadedProcess start cpu faults cycles =
     \<lparr>ProcessStats.comm = ''app'', ProcessStats.startTimeMillis = start,
      ProcessStats.cpuTimeMillis = cpu, totalCpuCycles = saturatedSum (map snd cycles),
      ProcessStats.totalMajorFaults = faults, ProcessStats.totalTasksCount = 1,
      ProcessStats.ioBlockedTasksCount = 0, cpuCyclesByTid = cycles,
      rssKb = 0, pssKb = 0, ussKb = 0, swapPssKb = 0\<rparr>"

definition uidOf :: "(pid_t \<times> ProcessStats) list \<Rightarrow> UidProcStats" where
  "uidOf ps =
     entryOrEmpty (fold (\<lambda>entry. foldProcessStats 1000 (fst entry) (snd entry)) ps []) 1000"

definition uidBefore :: UidProcStats where
  "uidBefore =
     uidOf [(1000, threadedProcess 5000 300 7 [(1000, 100), (1001, 200), (1002, 300)]),
            (2000, threadedProcess 5000 300 7 []),
            (3000, threadedProcess 5000 300 7 [(3000, 900)])]"

definition uidNow :: UidProcStats where
  "uidNow =
     uidOf [(1000, threadedProcess 5000 450 10 [(1000, 150), (1001, 250)]),
            (2000, threadedProcess 9000 50 2 []),
            (3000, threadedProcess 5000 100 5 [(3000, 400)])]"

definition snapshotBefore :: snapshot where
  "snapshotBefore = [(1000, uidBefore)]"

definition snapshotNow :: snapshot where
  "snapshotNow = [(1000, uidNow), (2000, uidOf [(4000, threadedProcess 100 20 1 [])])]"

section \<open>Saturating arithmetic\<close>

lemma unat_kMaxUint64: "unat kMaxUint64 = 18446744073709551615"
  by (simp add: kMaxUint64_def)

lemma unat_u64_le_max: "unat (w :: u64) \<le> 18446744073709551615"
proof -
  have "unat w < 2 ^ 64"
    using unsigned_less [of w, where ?'a = nat] by simp
  then show ?thesis by simp
qed

lemma unat_addUint64:
  "unat (addUint64 l r) = min (unat l + unat r) 18446744073709551615"
proof -
  have sub: "unat (kMaxUint64 - l) = 18446744073709551615 - unat l"
    using unat_u64_le_max [of l]
    by (simp add: unat_sub_if' kMaxUint64_def word_le_nat_alt)
  show ?thesis
  proof (cases "(kMaxUint64 - l) > r")
    case True
    then have lt: "unat l + unat r < 18446744073709551615"
      using sub unat_u64_le_max [of l] by (simp add: word_less_nat_alt)
    then have "unat (l + r) = unat l + unat r"
      by (simp add: unat_word_ariths)
    with True lt show ?thesis by (simp add: addUint64_def)
  next
    case False
    then have "18446744073709551615 \<le> unat l + unat r"
      using sub unat_u64_le_max [of l] by (simp add: word_less_nat_alt)
    with False show ?thesis by (simp add: addUint64_def unat_kMaxUint64)
  qed
qed

lemma min_saturated_add: "min (min a m + s) m = min (a + s) m" for a m s :: nat
  by (simp add: min_def)

lemma unat_fold_addUint64:
  "unat (fold (\<lambda>x acc. addUint64 acc x) xs a) =
     min (unat a + sum_list (map unat xs)) 18446744073709551615"
proof (induction xs arbitrary: a)
  case Nil
  show ?case using unat_u64_le_max [of a] by simp
next
  case (Cons x xs)
  show ?case by (simp add: Cons.IH unat_addUint64 add.assoc)
qed

lemma unat_saturatedSum:
  "unat (saturatedSum xs) = min (sum_list (map unat xs)) 18446744073709551615"
  by (simp add: saturatedSum_def unat_fold_addUint64)

lemma unat_sum_list:
  "unat (sum_list ws) = sum_list (map unat ws) mod 2 ^ LENGTH('a)"
  for ws :: "'a::len word list"
proof (induction ws)
  case Nil
  show ?case by simp
next
  case (Cons w ws)
  have "unat (w + sum_list ws) = (unat w + unat (sum_list ws)) mod 2 ^ LENGTH('a)"
    by (simp add: unat_word_ariths)
  also have "\<dots> = (unat w + sum_list (map unat ws) mod 2 ^ LENGTH('a)) mod 2 ^ LENGTH('a)"
    by (simp add: Cons.IH)
  also have "\<dots> = (unat w + sum_list (map unat ws)) mod 2 ^ LENGTH('a)"
    by (rule mod_add_right_eq)
  finally show ?case by simp
qed

lemma unat_mul:
  "unat (mul l r) =
     (if l = 0 \<or> r = 0 then 0
      else if unat l < 18446744073709551615 div unat r then unat l * unat r
      else 18446744073709551615)"
proof (cases "l = 0 \<or> r = 0")
  case True
  then show ?thesis by (auto simp: mul_def)
next
  case False
  then have r0: "0 < unat r" by (simp add: unat_gt_0)
  have d: "unat (kMaxUint64 div r) = 18446744073709551615 div unat r"
    by (simp add: unat_div unat_kMaxUint64)
  show ?thesis
  proof (cases "kMaxUint64 div r > l")
    case True
    then have lt: "unat l < 18446744073709551615 div unat r"
      using d by (simp add: word_less_nat_alt)
    then have "Suc (unat l) * unat r \<le> (18446744073709551615 div unat r) * unat r"
      by (intro mult_le_mono1) simp
    also have "\<dots> \<le> 18446744073709551615" by simp
    finally have "unat l * unat r < 18446744073709551615"
      using r0 by simp
    then have "unat (l * r) = unat l * unat r"
      by (simp add: unat_word_ariths)
    with True False lt show ?thesis by (simp add: mul_def)
  next
    case notless: False
    then have "\<not> unat l < 18446744073709551615 div unat r"
      using d by (simp add: word_less_nat_alt)
    with notless False show ?thesis by (simp add: mul_def unat_kMaxUint64)
  qed
qed

text \<open>
  Neither operation wraps: the sum is exact, and the product is never below the
  saturated product.
\<close>

lemma mul_not_below: "min (unat l * unat r) 18446744073709551615 \<le> unat (mul l r)"
proof (cases "l = 0 \<or> r = 0")
  case True
  then show ?thesis by (auto simp: unat_mul)
next
  case False
  show ?thesis
  proof (cases "unat l < 18446744073709551615 div unat r")
    case True
    with False show ?thesis by (simp add: unat_mul)
  next
    case notless: False
    with False show ?thesis by (simp add: unat_mul)
  qed
qed

text \<open>
  C5. The saturating product is not always \<open>min (l * r) (2^64 - 1)\<close>: the test
  \<^verbatim>\<open>(kMaxUint64 / r) > l\<close> is strict, so for \<open>l = kMaxUint64 / r\<close> the product is
  replaced by the maximum although it fits. For \<open>l = 2^63 - 1\<close> and \<open>r = 2\<close> the
  product is \<open>2^64 - 2\<close> and \<open>mul\<close> returns \<open>2^64 - 1\<close>; a time-in-state file with the
  single line \<^verbatim>\<open>1844674407370955161 1\<close>, at 100 clock ticks per second, stands for
  \<open>18446744073709551610\<close> cycles and is read as \<open>2^64 - 1\<close>.
\<close>

theorem mul_saturates_below_the_maximum:
  "mul 9223372036854775807 2 = 18446744073709551615 \<and>
   min (unat (9223372036854775807 :: u64) * unat (2 :: u64)) 18446744073709551615 =
     18446744073709551614 \<and>
   readTimeInStateFile (oneFile (TaskTimeInStateFile 1 1) ''1844674407370955161 1'')
     (TaskTimeInStateFile 1 1) = Inr 18446744073709551615 \<and>
   min (1844674407370955161 * 1 * (1000 div 100)) 18446744073709551615 =
     (18446744073709551610 :: nat)"
proof -
  have "mul 9223372036854775807 2 = 18446744073709551615"
    by (simp add: mul_def kMaxUint64_def)
  moreover have
    "readTimeInStateFile (oneFile (TaskTimeInStateFile 1 1) ''1844674407370955161 1'')
       (TaskTimeInStateFile 1 1) = Inr 18446744073709551615"
    by code_simp
  ultimately show ?thesis by simp
qed

theorem mul_saturates_below_the_maximum_witness:
  "unat (mul 9223372036854775807 2) \<noteq>
     min (unat (9223372036854775807 :: u64) * unat (2 :: u64)) 18446744073709551615"
  using mul_saturates_below_the_maximum by simp

section \<open>Splitting strings\<close>

lemma Split_not_Nil: "Split s ds \<noteq> []"
  by (induction s) (auto split: list.splits)

lemma Split_no_delimiter: "set s \<inter> set ds = {} \<Longrightarrow> Split s ds = [s]"
  by (induction s) auto

lemma Split_at_delimiter:
  "set s \<inter> set ds = {} \<Longrightarrow> d \<in> set ds \<Longrightarrow> Split (s @ d # t) ds = s # Split t ds"
  by (induction s) auto

lemma Split_cases:
  "(set s \<inter> set ds = {} \<and> Split s ds = [s]) \<or>
   (\<exists>a d b. s = a @ d # b \<and> set a \<inter> set ds = {} \<and> d \<in> set ds \<and> Split s ds = a # Split b ds)"
proof (cases "set s \<inter> set ds = {}")
  case True
  then show ?thesis by (simp add: Split_no_delimiter)
next
  case False
  then have "\<exists>x\<in>set s. x \<in> set ds" by blast
  from split_list_first_prop [OF this]
  obtain a d b where s: "s = a @ d # b" and d: "d \<in> set ds" and a: "\<forall>y\<in>set a. y \<notin> set ds"
    by blast
  from a have "set a \<inter> set ds = {}" by blast
  with s d Split_at_delimiter [of a ds d b] show ?thesis by blast
qed

lemma Split_single_empty: "Split b ds = [[]] \<Longrightarrow> b = []"
proof -
  assume sp: "Split b ds = [[]]"
  from Split_cases [of b ds] show "b = []"
  proof
    assume "set b \<inter> set ds = {} \<and> Split b ds = [b]"
    with sp show ?thesis by simp
  next
    assume "\<exists>a d c. b = a @ d # c \<and> set a \<inter> set ds = {} \<and> d \<in> set ds \<and>
              Split b ds = a # Split c ds"
    then obtain a c where "Split b ds = a # Split c ds" by blast
    with sp have "Split c ds = []" by simp
    then show ?thesis by (simp add: Split_not_Nil)
  qed
qed

lemma Split_append:
  "d \<in> set ds \<Longrightarrow> Split (a @ d # b) ds = Split a ds @ Split b ds"
  by (induction a) (auto simp: Split_not_Nil split: list.splits)

section \<open>The stat line parser\<close>

lemma tl_Split_Nil: "tl (Split s ds) = [] \<longleftrightarrow> set s \<inter> set ds = {}"
  by (induction s) (auto simp: Split_not_Nil split: list.splits)

lemma commLoop_Nil: "fst (commLoop fs i c) = [] \<longleftrightarrow> fs = [] \<and> c = []"
  by (induction fs i c rule: commLoop.induct) (auto simp: EndsWith_def)

text \<open>
  The comm string is empty when the brackets are checked exactly for the lines without
  a space, which have the single field 0.
\<close>

lemma parsePidStatLine_FrontOfEmptyComm:
  "parsePidStatLine e line = FrontOfEmptyComm \<longleftrightarrow> CHR '' '' \<notin> set line"
proof -
  obtain c off where co: "commLoop (tl (Split line '' '')) 1 [] = (c, off)"
    by (cases "commLoop (tl (Split line '' '')) 1 []")
  have "c = [] \<longleftrightarrow> CHR '' '' \<notin> set line"
    using commLoop_Nil [of "tl (Split line '' '')" 1 "[]"] co tl_Split_Nil [of line "'' ''"]
    by simp
  then show ?thesis
    unfolding parsePidStatLine_def Let_def co by (auto split: option.splits)
qed

text \<open>
  C10. The parser does not reject a line that has no field after field 0 before it looks
  at the comm string: for the empty line the loop over the fields does not run, the comm
  string is empty, and the check of the brackets calls \<^verbatim>\<open>front()\<close> on it. An empty stat
  file reaches the parser as the empty line.
\<close>

theorem empty_line_reads_front_of_empty_comm:
  "parsePidStatLine e [] = FrontOfEmptyComm \<and>
   readPidStatFile (oneFile (StatFile 1) []) (StatFile 1) millisPerClockTick =
     Inl EMPTY_STRING_ACCESS"
  by (simp add: readPidStatFile_def oneFile_def decimalEnv_def parsePidStatLine_def)

theorem empty_line_reads_front_of_empty_comm_witness:
  "parsePidStatLine noFiles [] \<noteq> NotParsed \<and>
   readPidStatFile (oneFile (StatFile 1) []) (StatFile 1) 10 \<noteq> Inl READ_ERROR"
  using empty_line_reads_front_of_empty_comm [of noFiles 10] by simp

text \<open>
  C3. A comm string in which a closing bracket is followed by a space does not parse
  back: the loop stops at the first field that ends with a closing bracket. For the comm
  \<^verbatim>\<open>a) b\<close> the parser returns the comm \<^verbatim>\<open>a\<close>, takes \<^verbatim>\<open>b)\<close> for the state and reads
  every number one field too early (0 major faults for 220, 10 ticks for 30, start time
  0 for 500). The comm \<^verbatim>\<open>my proc\<close> parses back, with the numbers of the line.
\<close>

theorem comm_with_bracket_and_space_is_cut:
  "parsePidStatLine noFiles (statLine ''a) b'') =
     Parsed \<lparr>PidStat.comm = ''a'', state = ''b)'', PidStat.startTimeMillis = 0,
             PidStat.cpuTimeMillis = 10, majorFaults = 0\<rparr> \<and>
   parsePidStatLine noFiles (statLine ''my proc'') =
     Parsed \<lparr>PidStat.comm = ''my proc'', state = ''S'', PidStat.startTimeMillis = 500,
             PidStat.cpuTimeMillis = 30, majorFaults = 220\<rparr>"
  by code_simp

theorem comm_with_bracket_and_space_is_cut_witness:
  "parsePidStatLine noFiles (statLine ''a) b'') \<noteq>
     Parsed \<lparr>PidStat.comm = ''a) b'', state = ''S'', PidStat.startTimeMillis = 500,
             PidStat.cpuTimeMillis = 30, majorFaults = 220\<rparr>"
  using comm_with_bracket_and_space_is_cut by simp

text \<open>
  The comm strings that do parse back are those in which no closing bracket is followed
  by a space. The fields of the bracketed comm are then joined again by the loop, which
  stops at the last of them.
\<close>

lemma StartsWith_iff: "StartsWith s t \<longleftrightarrow> (\<exists>v. s = t @ v)"
proof
  assume "StartsWith s t"
  then have "take (length t) s = t" by (simp add: StartsWith_def)
  then have "s = t @ drop (length t) s" by (metis append_take_drop_id)
  then show "\<exists>v. s = t @ v" ..
next
  assume "\<exists>v. s = t @ v"
  then show "StartsWith s t" by (auto simp: StartsWith_def)
qed

lemma contains_iff: "contains s t \<longleftrightarrow> (\<exists>u v. s = u @ t @ v)"
proof (induction s)
  case Nil
  show ?case by auto
next
  case (Cons c cs)
  show ?case
  proof
    assume "contains (c # cs) t"
    then have "StartsWith (c # cs) t \<or> contains cs t" by simp
    then show "\<exists>u v. c # cs = u @ t @ v"
    proof
      assume "StartsWith (c # cs) t"
      then obtain v where "c # cs = t @ v" by (auto simp: StartsWith_iff)
      then have "c # cs = [] @ t @ v" by simp
      then show ?thesis by blast
    next
      assume "contains cs t"
      then obtain u v where "cs = u @ t @ v" using Cons.IH by blast
      then have "c # cs = (c # u) @ t @ v" by simp
      then show ?thesis by blast
    qed
  next
    assume "\<exists>u v. c # cs = u @ t @ v"
    then obtain u v where uv: "c # cs = u @ t @ v" by blast
    show "contains (c # cs) t"
    proof (cases u)
      case Nil
      with uv have "StartsWith (c # cs) t" by (auto simp: StartsWith_iff)
      then show ?thesis by simp
    next
      case (Cons x u')
      with uv have "cs = u' @ t @ v" by simp
      then have "contains cs t" using Cons.IH by blast
      then show ?thesis by simp
    qed
  qed
qed

lemma EndsWith_bracket: "EndsWith f '')'' \<longleftrightarrow> f \<noteq> [] \<and> last f = CHR '')''"
proof (cases f rule: rev_cases)
  case Nil
  then show ?thesis by (simp add: EndsWith_def)
next
  case (snoc ys y)
  then show ?thesis by (auto simp: EndsWith_def)
qed

lemma commLoop_joins:
  assumes "s \<noteq> []" and "last s = CHR '')''" and "\<not> contains s '') ''"
  shows "commLoop (Split s '' '' @ others) i acc = (acc @ s, i + length (Split s '' '') - 2)"
  using assms
proof (induction "length s" arbitrary: s i acc rule: less_induct)
  case less
  from Split_cases [of s "'' ''"] show ?case
  proof
    assume "set s \<inter> set '' '' = {} \<and> Split s '' '' = [s]"
    then have sp: "Split s '' '' = [s]" by simp
    from less.prems have "EndsWith s '')''" by (simp add: EndsWith_bracket)
    with sp show ?thesis by simp
  next
    assume "\<exists>a d b. s = a @ d # b \<and> set a \<inter> set '' '' = {} \<and> d \<in> set '' '' \<and>
              Split s '' '' = a # Split b '' ''"
    then obtain a b where s: "s = a @ CHR '' '' # b" and sp: "Split s '' '' = a # Split b '' ''"
      by auto
    have nb: "b \<noteq> []"
    proof
      assume "b = []"
      with s have "last s = CHR '' ''" by simp
      with less.prems(2) show False by simp
    qed
    with s less.prems(2) have lb: "last b = CHR '')''" by simp
    have cb: "\<not> contains b '') ''"
    proof
      assume "contains b '') ''"
      then obtain u v where "b = u @ '') '' @ v" by (auto simp: contains_iff)
      with s have "s = (a @ CHR '' '' # u) @ '') '' @ v" by simp
      then have "contains s '') ''" unfolding contains_iff by blast
      with less.prems(3) show False by simp
    qed
    have na: "\<not> EndsWith a '')''"
    proof
      assume "EndsWith a '')''"
      then have "a \<noteq> []" and "last a = CHR '')''" by (simp_all add: EndsWith_bracket)
      then have "a = butlast a @ '')''" by (metis append_butlast_last_id)
      with s have "s = butlast a @ '') '' @ b" by (metis append.assoc append_Cons append_Nil)
      then have "contains s '') ''" unfolding contains_iff by blast
      with less.prems(3) show False by simp
    qed
    from s have "length b < length s" by simp
    from less.hyps [OF this nb lb cb, of "Suc i" "acc @ a @ '' ''"]
    have rec: "commLoop (Split b '' '' @ others) (Suc i) (acc @ a @ '' '') =
            (acc @ a @ '' '' @ b, Suc i + length (Split b '' '') - 2)"
      by simp
    have len: "length (Split s '' '') = Suc (length (Split b '' ''))"
      by (simp add: sp)
    have "commLoop (Split s '' '' @ others) i acc =
            commLoop (Split b '' '' @ others) (Suc i) (acc @ a @ '' '')"
      using na by (simp add: sp)
    also note rec
    also have "(acc @ a @ '' '' @ b, Suc i + length (Split b '' '') - 2) =
                 (acc @ s, i + length (Split s '' '') - 2)"
      unfolding len by (simp add: s)
    finally show ?thesis .
  qed
qed

lemma contains_bracketed:
  assumes "\<not> contains c '') ''"
  shows "\<not> contains (CHR ''('' # c @ '')'') '') ''"
proof
  assume "contains (CHR ''('' # c @ '')'') '') ''"
  then obtain u v where uv: "CHR ''('' # c @ '')'' = u @ '') '' @ v"
    by (auto simp: contains_iff)
  show False
  proof (cases u)
    case Nil
    with uv show False by simp
  next
    case (Cons x u')
    with uv have eq: "c @ '')'' = u' @ '') '' @ v" by simp
    show False
    proof (cases v rule: rev_cases)
      case Nil
      with eq have "c @ '')'' = (u' @ '')'') @ '' ''" by simp
      then have "CHR '')'' = CHR '' ''" by (simp only: append1_eq_conv)
      then show False by simp
    next
      case (snoc v' y)
      with eq have "c @ '')'' = (u' @ '') '' @ v') @ [y]" by simp
      then have "c = u' @ '') '' @ v'" by (simp only: append1_eq_conv)
      then have "contains c '') ''" unfolding contains_iff by blast
      with assms show False by simp
    qed
  qed
qed

text \<open>
  A stat line whose comm has no closing bracket followed by a space parses to that comm,
  and the state and the four numbers are read at the offsets moved by the number of
  spaces in the comm.
\<close>

lemma parsePidStatLine_round_trip:
  assumes c: "\<not> contains c '') ''" and pid: "CHR '' '' \<notin> set pid"
    and n: "20 \<le> length (Split rest '' '')"
    and majflt: "ParseUint e (Split rest '' '' ! 9) = Some majflt"
    and utime: "ParseInt e (Split rest '' '' ! 11) = Some utime"
    and stime: "ParseInt e (Split rest '' '' ! 12) = Some stime"
    and starttime: "ParseInt e (Split rest '' '' ! 19) = Some starttime"
  shows "parsePidStatLine e (pid @ '' ('' @ c @ '') '' @ rest) =
           Parsed \<lparr>PidStat.comm = c, state = Split rest '' '' ! 0,
                   PidStat.startTimeMillis = starttime,
                   PidStat.cpuTimeMillis = utime + stime, majorFaults = majflt\<rparr>"
proof -
  define s where "s = CHR ''('' # c @ '')''"
  let ?F = "Split s '' ''"
  let ?R = "Split rest '' ''"
  have s1: "s \<noteq> []" and s2: "last s = CHR '')''" and s3: "hd s = CHR ''(''"
    and strip: "butlast (tl s) = c"
    by (simp_all add: s_def butlast_append)
  have s4: "\<not> contains s '') ''"
    unfolding s_def using c by (rule contains_bracketed)
  have line: "pid @ '' ('' @ c @ '') '' @ rest = pid @ CHR '' '' # (s @ CHR '' '' # rest)"
    by (simp add: s_def)
  have "Split (pid @ CHR '' '' # (s @ CHR '' '' # rest)) '' '' =
          Split pid '' '' @ Split (s @ CHR '' '' # rest) '' ''"
    by (rule Split_append) simp
  also have "Split pid '' '' = [pid]"
    using pid by (intro Split_no_delimiter) simp
  also have "Split (s @ CHR '' '' # rest) '' '' = ?F @ ?R"
    by (rule Split_append) simp
  finally have fields: "Split (pid @ '' ('' @ c @ '') '' @ rest) '' '' = pid # ?F @ ?R"
    unfolding line by simp
  obtain k where k: "length ?F = Suc k"
    using Split_not_Nil [of s "'' ''"] by (cases ?F) simp_all
  have "commLoop (?F @ ?R) 1 [] = ([] @ s, 1 + length ?F - 2)"
    using s1 s2 s4 by (rule commLoop_joins)
  then have loop: "commLoop (?F @ ?R) 1 [] = (s, k)"
    by (simp add: k)
  have nth: "(pid # ?F @ ?R) ! (j + Suc (Suc k)) = ?R ! j" for j
    by (simp add: nth_append k)
  have i2: "(pid # ?F @ ?R) ! (2 + k) = ?R ! 0" using nth [of 0] by simp
  have i11: "(pid # ?F @ ?R) ! (11 + k) = ?R ! 9"
    using nth [of 9] by (simp add: numeral_eq_Suc)
  have i13: "(pid # ?F @ ?R) ! (13 + k) = ?R ! 11"
    using nth [of 11] by (simp add: numeral_eq_Suc)
  have i14: "(pid # ?F @ ?R) ! (14 + k) = ?R ! 12"
    using nth [of 12] by (simp add: numeral_eq_Suc)
  have i21: "(pid # ?F @ ?R) ! (21 + k) = ?R ! 19"
    using nth [of 19] by (simp add: numeral_eq_Suc)
  have len: "\<not> length (pid # ?F @ ?R) < 22 + k"
    using n by (simp add: k)
  show ?thesis
    unfolding parsePidStatLine_def fields Let_def
    apply (simp only: list.sel loop prod.case)
    apply (simp only: i2 i11 i13 i14 i21 len majflt utime stime starttime strip s1 s2 s3
        option.case if_False)
    apply simp
    done
qed

text \<open>
  So every comm without a closing bracket followed by a space parses back from the
  example line, with the numbers of the line.
\<close>

lemma rest_fields:
  "Split ''S 0 0 0 0 0 0 0 0 220 0 10 20 0 0 0 0 2 0 500'' '' '' =
     [''S'', ''0'', ''0'', ''0'', ''0'', ''0'', ''0'', ''0'', ''0'', ''220'', ''0'', ''10'',
      ''20'', ''0'', ''0'', ''0'', ''0'', ''2'', ''0'', ''500'']"
  by code_simp

lemma statLine_round_trip:
  assumes "\<not> contains c '') ''"
  shows "parsePidStatLine noFiles (statLine c) =
     Parsed \<lparr>PidStat.comm = c, state = ''S'', PidStat.startTimeMillis = 500,
             PidStat.cpuTimeMillis = 30, majorFaults = 220\<rparr>"
proof -
  let ?rest = "''S 0 0 0 0 0 0 0 0 220 0 10 20 0 0 0 0 2 0 500''"
  have line: "statLine c = ''1'' @ '' ('' @ c @ '') '' @ ?rest"
    by (simp add: statLine_def)
  have majflt: "ParseUint noFiles ''220'' = Some 220"
    and utime: "ParseInt noFiles ''10'' = Some 10"
    and stime: "ParseInt noFiles ''20'' = Some 20"
    and starttime: "ParseInt noFiles ''500'' = Some 500"
    by code_simp+
  show ?thesis
    unfolding line
    by (subst parsePidStatLine_round_trip [OF assms, where majflt = 220 and utime = 10
          and stime = 20 and starttime = 500])
      (simp_all add: rest_fields majflt utime stime starttime)
qed

section \<open>The statm reader\<close>

lemma one_line_buffer:
  assumes "length (Split buffer [d]) = 1 \<or>
           (length (Split buffer [d]) = 2 \<and> Split buffer [d] ! 1 = [])"
  shows "\<exists>line. d \<notin> set line \<and> (buffer = line \<or> buffer = line @ [d])"
proof -
  from Split_cases [of buffer "[d]"] show ?thesis
  proof
    assume "set buffer \<inter> set [d] = {} \<and> Split buffer [d] = [buffer]"
    then have "d \<notin> set buffer" by simp
    then show ?thesis by blast
  next
    assume "\<exists>a d' b. buffer = a @ d' # b \<and> set a \<inter> set [d] = {} \<and> d' \<in> set [d] \<and>
              Split buffer [d] = a # Split b [d]"
    then obtain a d' b where ab: "buffer = a @ d' # b" "set a \<inter> set [d] = {}" "d' \<in> set [d]"
       "Split buffer [d] = a # Split b [d]"
      by blast
    from ab(3) have dd: "d' = d" by simp
    from ab(2) have na: "d \<notin> set a" by simp
    obtain x xs where x: "Split b [d] = x # xs"
      using Split_not_Nil [of b "[d]"] by (cases "Split b [d]") simp_all
    with assms ab(4) have "xs = [] \<and> x = []" by auto
    with x have "Split b [d] = [[]]" by simp
    then have "b = []" by (rule Split_single_empty)
    with ab(1) dd na show ?thesis by auto
  qed
qed

lemma readPidStatmFile_one_line:
  assumes readable: "ReadFileToString e path = Some buffer"
    and lines: "Split buffer [CHR 0x0A] = [line] \<or> Split buffer [CHR 0x0A] = [line, []]"
  shows "readPidStatmFile e path =
              (if length (Split line '' '') < 6 then Inl READ_ERROR
               else (case ParseUint e (Split line '' '' ! 1) of
                       None \<Rightarrow> Inl READ_ERROR
                     | Some rssPages \<Rightarrow>
                         (case ParseUint e (Split line '' '' ! 2) of
                            None \<Rightarrow> Inl READ_ERROR
                          | Some sharedPages \<Rightarrow> Inr (rssPages, sharedPages))))"
  using lines
proof
  assume "Split buffer [CHR 0x0A] = [line]"
  then show ?thesis
    unfolding readPidStatmFile_def Let_def readable by (simp split: option.splits)
next
  assume "Split buffer [CHR 0x0A] = [line, []]"
  then show ?thesis
    unfolding readPidStatmFile_def Let_def readable by (simp split: option.splits)
qed

lemma readPidStatmFile_line_count:
  assumes readable: "ReadFileToString e path = Some buffer"
    and n: "\<forall>line. CHR 0x0A \<in> set line \<or> (buffer \<noteq> line \<and> buffer \<noteq> line @ [CHR 0x0A])"
  shows "readPidStatmFile e path = Inl READ_ERROR"
proof -
  have "\<not> (length (Split buffer [CHR 0x0A]) = 1 \<or>
            (length (Split buffer [CHR 0x0A]) = 2 \<and> Split buffer [CHR 0x0A] ! 1 = []))"
    using one_line_buffer [of buffer "CHR 0x0A"] n by blast
  then show ?thesis
    unfolding readPidStatmFile_def Let_def readable by simp
qed

text \<open>
  C8, as the program has it. A statm file that is one line, with or without a line feed
  after it, is rejected when the line has fewer than 6 fields (the pieces between
  single spaces), not fewer than 7; with at least 6 fields the result is field 1 and
  field 2, where both are unsigned numbers, and a parse failure otherwise. A file of
  any other shape is rejected for its number of lines.
\<close>

theorem statm_reader_requires_six_fields:
  assumes readable: "ReadFileToString e path = Some buffer"
  shows "(\<forall>line. CHR 0x0A \<notin> set line \<and> (buffer = line \<or> buffer = line @ [CHR 0x0A]) \<longrightarrow>
            readPidStatmFile e path =
              (if length (Split line '' '') < 6 then Inl READ_ERROR
               else (case ParseUint e (Split line '' '' ! 1) of
                       None \<Rightarrow> Inl READ_ERROR
                     | Some rssPages \<Rightarrow>
                         (case ParseUint e (Split line '' '' ! 2) of
                            None \<Rightarrow> Inl READ_ERROR
                          | Some sharedPages \<Rightarrow> Inr (rssPages, sharedPages))))) \<and>
         ((\<forall>line. CHR 0x0A \<in> set line \<or> (buffer \<noteq> line \<and> buffer \<noteq> line @ [CHR 0x0A])) \<longrightarrow>
            readPidStatmFile e path = Inl READ_ERROR)"
proof (intro conjI allI impI)
  fix line
  assume l: "CHR 0x0A \<notin> set line \<and> (buffer = line \<or> buffer = line @ [CHR 0x0A])"
  then have "Split buffer [CHR 0x0A] = [line] \<or> Split buffer [CHR 0x0A] = [line, []]"
    using Split_no_delimiter [of line "[CHR 0x0A]"]
      Split_at_delimiter [of line "[CHR 0x0A]" "CHR 0x0A" "[]"] by auto
  then show "readPidStatmFile e path =
              (if length (Split line '' '') < 6 then Inl READ_ERROR
               else (case ParseUint e (Split line '' '' ! 1) of
                       None \<Rightarrow> Inl READ_ERROR
                     | Some rssPages \<Rightarrow>
                         (case ParseUint e (Split line '' '' ! 2) of
                            None \<Rightarrow> Inl READ_ERROR
                          | Some sharedPages \<Rightarrow> Inr (rssPages, sharedPages))))"
    by (rule readPidStatmFile_one_line [OF readable])
next
  assume "\<forall>line. CHR 0x0A \<in> set line \<or> (buffer \<noteq> line \<and> buffer \<noteq> line @ [CHR 0x0A])"
  then show "readPidStatmFile e path = Inl READ_ERROR"
    by (rule readPidStatmFile_line_count [OF readable])
qed

theorem statm_reader_requires_six_fields_witness:
  "ReadFileToString (oneFile (StatmFile 1) (''2969783 1481 938 530 0 5067 0'' @ [CHR 0x0A]))
     (StatmFile 1) = Some (''2969783 1481 938 530 0 5067 0'' @ [CHR 0x0A]) \<and>
   readPidStatmFile (oneFile (StatmFile 1) (''2969783 1481 938 530 0 5067 0'' @ [CHR 0x0A]))
     (StatmFile 1) = Inr (1481, 938) \<and>
   readPidStatmFile (oneFile (StatmFile 1) ''1 2 3 4 5'') (StatmFile 1) = Inl READ_ERROR \<and>
   readPidStatmFile (oneFile (StatmFile 1) (''1 2 3 4 5 6'' @ [CHR 0x0A] @ ''7''))
     (StatmFile 1) = Inl READ_ERROR"
proof -
  let ?b1 = "''2969783 1481 938 530 0 5067 0'' @ [CHR 0x0A]"
  let ?b2 = "''1 2 3 4 5''"
  let ?b3 = "''1 2 3 4 5 6'' @ [CHR 0x0A] @ ''7''"
  have r1: "ReadFileToString (oneFile (StatmFile 1) ?b1) (StatmFile 1) = Some ?b1"
    by (simp add: oneFile_def decimalEnv_def)
  have r2: "ReadFileToString (oneFile (StatmFile 1) ?b2) (StatmFile 1) = Some ?b2"
    by (simp add: oneFile_def decimalEnv_def)
  have r3: "ReadFileToString (oneFile (StatmFile 1) ?b3) (StatmFile 1) = Some ?b3"
    by (simp add: oneFile_def decimalEnv_def)
  have v1: "(if length (Split ''2969783 1481 938 530 0 5067 0'' '' '') < 6 then Inl READ_ERROR
            else (case ParseUint (oneFile (StatmFile 1) ?b1)
                         (Split ''2969783 1481 938 530 0 5067 0'' '' '' ! 1) of
                    None \<Rightarrow> Inl READ_ERROR
                  | Some rssPages \<Rightarrow>
                      (case ParseUint (oneFile (StatmFile 1) ?b1)
                              (Split ''2969783 1481 938 530 0 5067 0'' '' '' ! 2) of
                         None \<Rightarrow> Inl READ_ERROR
                       | Some sharedPages \<Rightarrow> Inr (rssPages, sharedPages)))) =
            Inr (1481, 938)"
    by code_simp
  have v2: "length (Split ''1 2 3 4 5'' '' '') < 6"
    by code_simp
  have c1: "readPidStatmFile (oneFile (StatmFile 1) ?b1) (StatmFile 1) = Inr (1481, 938)"
    using statm_reader_requires_six_fields [OF r1, THEN conjunct1, THEN spec,
        of "''2969783 1481 938 530 0 5067 0''"] v1
    by simp
  have c2: "readPidStatmFile (oneFile (StatmFile 1) ?b2) (StatmFile 1) = Inl READ_ERROR"
    using statm_reader_requires_six_fields [OF r2, THEN conjunct1, THEN spec, of ?b2] v2
    by simp
  have n3: "\<forall>line. CHR 0x0A \<in> set line \<or> (?b3 \<noteq> line \<and> ?b3 \<noteq> line @ [CHR 0x0A])"
    by auto
  have c3: "readPidStatmFile (oneFile (StatmFile 1) ?b3) (StatmFile 1) = Inl READ_ERROR"
    using statm_reader_requires_six_fields [OF r3, THEN conjunct2] n3 by blast
  from r1 c1 c2 c3 show ?thesis by blast
qed

text \<open>
  C8, as the claim has it, fails: a line with 6 fields, fewer than 7, is read.
\<close>

theorem six_statm_fields_are_accepted:
  "length (Split ''1 2 3 4 5 6'' '' '') = 6 \<and>
   readPidStatmFile (oneFile (StatmFile 1) ''1 2 3 4 5 6'') (StatmFile 1) = Inr (2, 3)"
  by code_simp

section \<open>The key-value reader\<close>

text \<open>
  C9. \<^verbatim>\<open>Split\<close> cuts the line at every colon and at every tab, not at the delimiter
  string as a whole, and the value starts \<open>key.length + delimiter.length\<close> characters
  into the line whatever stands there. The line \<^verbatim>\<open>Uid:1000\<close> does not contain the
  delimiter (colon, tab), and it is read as the key \<^verbatim>\<open>Uid\<close> with the value \<^verbatim>\<open>000\<close>. In
  the line \<^verbatim>\<open>a:b:<tab>c\<close> the delimiter first occurs after \<^verbatim>\<open>a:b\<close>, and the key read is
  \<^verbatim>\<open>a\<close> with the value \<^verbatim>\<open>:<tab>c\<close>. For the line \<^verbatim>\<open>Uid:\<close> the start of the value is
  beyond the end of the line.
\<close>

theorem line_without_delimiter_is_read:
  "\<not> contains ''Uid:1000'' [CHR '':'', CHR 0x09] \<and>
   readKeyValueFile (oneFile (StatusFile 1) ''Uid:1000'') (StatusFile 1)
     [CHR '':'', CHR 0x09] [''Uid'', ''Tgid''] = Inr [(''Uid'', ''000'')] \<and>
   readKeyValueFile (oneFile (StatusFile 1) (''a:b:'' @ [CHR 0x09] @ ''c'')) (StatusFile 1)
     [CHR '':'', CHR 0x09] [''a''] = Inr [(''a'', '':'' @ [CHR 0x09] @ ''c'')] \<and>
   readKeyValueFile (oneFile (StatusFile 1) ''Uid:'') (StatusFile 1)
     [CHR '':'', CHR 0x09] [''Uid'', ''Tgid''] = Inl SUBSTR_OUT_OF_RANGE"
  by code_simp

theorem line_without_delimiter_is_read_witness:
  "readKeyValueFile (oneFile (StatusFile 1) ''Uid:1000'') (StatusFile 1)
     [CHR '':'', CHR 0x09] [''Uid'', ''Tgid''] \<noteq> Inl READ_ERROR"
  using line_without_delimiter_is_read by simp

section \<open>The statm fallback\<close>

lemma u64_sub_less_iff: "(a - b < a) = (b \<noteq> 0 \<and> b \<le> a)" for a b :: u64
  by (meson leD linorder_le_less_linear sub_wrap)

text \<open>
  The unique set size of the fallback is the difference only when the shared size is
  neither zero nor above the resident size.
\<close>

lemma statmFallback_ussKb:
  "ussKb (statmFallback pageSizeKb (rssPages, sharedPages) processStats) =
     (if sharedPages * pageSizeKb \<noteq> 0 \<and> sharedPages * pageSizeKb \<le> rssPages * pageSizeKb
      then rssPages * pageSizeKb - sharedPages * pageSizeKb else 0)"
  by (simp add: statmFallback_def Let_def u64_sub_less_iff)

lemma statmFallback_rssKb:
  "rssKb (statmFallback pageSizeKb (rssPages, sharedPages) processStats) =
     rssPages * pageSizeKb"
  by (simp add: statmFallback_def Let_def)

text \<open>
  C6. With no shared pages the subtraction does not wrap, and the unique set size is
  zeroed all the same: the guard \<^verbatim>\<open>ussKb < processStats.rssKb\<close> is strict. For a statm
  file with 50 resident and 0 shared pages of 4 KiB the process has 200 KiB resident and
  0 KiB unique, where the claim has 200.
\<close>

theorem no_shared_pages_zeroes_uss:
  "readProcessStatsLocked collector1 procfs1 1 =
     Inr (1000,
          \<lparr>ProcessStats.comm = ''init'', ProcessStats.startTimeMillis = 5000,
           ProcessStats.cpuTimeMillis = 300, totalCpuCycles = 0,
           ProcessStats.totalMajorFaults = 220, ProcessStats.totalTasksCount = 1,
           ProcessStats.ioBlockedTasksCount = 0, cpuCyclesByTid = [],
           rssKb = 200, pssKb = 0, ussKb = 0, swapPssKb = 0\<rparr>)"
  by code_simp

theorem no_shared_pages_zeroes_uss_witness:
  "map_sum id (\<lambda>result. (rssKb (snd result), ussKb (snd result)))
     (readProcessStatsLocked collector1 procfs1 1) = Inr (200, 0)"
  using no_shared_pages_zeroes_uss by simp

section \<open>Folding processes into UIDs\<close>

lemma readPids_fold:
  "readPids c e entries acc = Inr m \<Longrightarrow>
   m = fold (\<lambda>r. foldProcessStats (fst r) (fst (snd r)) (snd (snd r)))
         (readProcesses c e entries) acc"
proof (induction entries arbitrary: acc)
  case Nil
  then show ?case by simp
next
  case (Cons pidDir rest)
  then show ?case
    by (auto split: if_splits option.splits sum.splits)
qed

lemma entryOrEmpty_foldProcessStats:
  "entryOrEmpty (foldProcessStats uid' pid p m) uid =
     (if uid = uid'
      then (entryOrEmpty m uid)
             \<lparr>UidProcStats.cpuTimeMillis :=
                UidProcStats.cpuTimeMillis (entryOrEmpty m uid) + ProcessStats.cpuTimeMillis p,
              cpuCycles := addUint64 (cpuCycles (entryOrEmpty m uid)) (totalCpuCycles p),
              UidProcStats.totalMajorFaults :=
                UidProcStats.totalMajorFaults (entryOrEmpty m uid) +
                ProcessStats.totalMajorFaults p,
              UidProcStats.totalTasksCount :=
                UidProcStats.totalTasksCount (entryOrEmpty m uid) +
                ProcessStats.totalTasksCount p,
              UidProcStats.ioBlockedTasksCount :=
                UidProcStats.ioBlockedTasksCount (entryOrEmpty m uid) +
                ProcessStats.ioBlockedTasksCount p,
              totalRssKb := totalRssKb (entryOrEmpty m uid) + rssKb p,
              totalPssKb := totalPssKb (entryOrEmpty m uid) + pssKb p,
              processStatsByPid :=
                AList.update pid p (processStatsByPid (entryOrEmpty m uid))\<rparr>
      else entryOrEmpty m uid)"
  by (simp add: foldProcessStats_def Let_def update_conv' entryOrEmpty_def)

lemma fold_foldProcessStats_sum:
  fixes f :: "UidProcStats \<Rightarrow> 'a::len word" and g :: "ProcessStats \<Rightarrow> 'a word"
  assumes step: "\<And>uid' pid p m.
    f (entryOrEmpty (foldProcessStats uid' pid p m) uid) =
      (if uid = uid' then f (entryOrEmpty m uid) + g p else f (entryOrEmpty m uid))"
  shows "f (entryOrEmpty
              (fold (\<lambda>r. foldProcessStats (fst r) (fst (snd r)) (snd (snd r))) rs acc) uid) =
         f (entryOrEmpty acc uid) +
         sum_list (map (\<lambda>r. g (snd (snd r))) (filter (\<lambda>r. fst r = uid) rs))"
proof (induction rs arbitrary: acc)
  case Nil
  show ?case by simp
next
  case (Cons r rs)
  show ?case by (simp add: Cons.IH step add.assoc)
qed

lemma fold_foldProcessStats_cpuCycles:
  "unat (cpuCycles (entryOrEmpty
              (fold (\<lambda>r. foldProcessStats (fst r) (fst (snd r)) (snd (snd r))) rs acc) uid)) =
     min (unat (cpuCycles (entryOrEmpty acc uid)) +
          sum_list (map (\<lambda>r. unat (totalCpuCycles (snd (snd r)))) (filter (\<lambda>r. fst r = uid) rs)))
       18446744073709551615"
proof (induction rs arbitrary: acc)
  case Nil
  show ?case using unat_u64_le_max [of "cpuCycles (entryOrEmpty acc uid)"] by simp
next
  case (Cons r rs)
  show ?case
    by (simp add: Cons.IH entryOrEmpty_foldProcessStats unat_addUint64 min_saturated_add
        add.assoc)
qed

text \<open>
  C7, as the program has it. In the snapshot that \<^verbatim>\<open>readUidProcStatsLocked\<close> returns, the
  CPU time of a UID is the sum of the CPU times of its processes modulo \<open>2^64\<close>: it is
  added with \<^verbatim>\<open>+=\<close> and wraps, as the major faults and the resident and proportional
  sizes do (the task counts are \<^verbatim>\<open>int\<close> sums). Only the CPU cycles are added with
  \<open>addUint64\<close> and stop at \<open>2^64 - 1\<close>.
\<close>

theorem uid_fold_sums:
  assumes dir: "procDir e = Some entries"
    and ok: "readUidProcStatsLocked c e = Inr m"
    and u: "map_of m uid = Some u"
  shows "unat (UidProcStats.cpuTimeMillis u) =
           sum_list (map (\<lambda>r. unat (ProcessStats.cpuTimeMillis (snd (snd r))))
                       (filter (\<lambda>r. fst r = uid) (readProcesses c e entries))) mod 2 ^ 64 \<and>
         unat (UidProcStats.totalMajorFaults u) =
           sum_list (map (\<lambda>r. unat (ProcessStats.totalMajorFaults (snd (snd r))))
                       (filter (\<lambda>r. fst r = uid) (readProcesses c e entries))) mod 2 ^ 64 \<and>
         unat (UidProcStats.totalTasksCount u) =
           sum_list (map (\<lambda>r. unat (ProcessStats.totalTasksCount (snd (snd r))))
                       (filter (\<lambda>r. fst r = uid) (readProcesses c e entries))) mod 2 ^ 32 \<and>
         unat (UidProcStats.ioBlockedTasksCount u) =
           sum_list (map (\<lambda>r. unat (ProcessStats.ioBlockedTasksCount (snd (snd r))))
                       (filter (\<lambda>r. fst r = uid) (readProcesses c e entries))) mod 2 ^ 32 \<and>
         unat (totalRssKb u) =
           sum_list (map (\<lambda>r. unat (rssKb (snd (snd r))))
                       (filter (\<lambda>r. fst r = uid) (readProcesses c e entries))) mod 2 ^ 64 \<and>
         unat (totalPssKb u) =
           sum_list (map (\<lambda>r. unat (pssKb (snd (snd r))))
                       (filter (\<lambda>r. fst r = uid) (readProcesses c e entries))) mod 2 ^ 64 \<and>
         unat (cpuCycles u) =
           min (sum_list (map (\<lambda>r. unat (totalCpuCycles (snd (snd r))))
                            (filter (\<lambda>r. fst r = uid) (readProcesses c e entries))))
             18446744073709551615"
proof -
  let ?rs = "readProcesses c e entries"
  let ?mine = "filter (\<lambda>r. fst r = uid) ?rs"
  from ok dir have "readPids c e entries [] = Inr m"
    by (simp add: readUidProcStatsLocked_def)
  then have m: "m = fold (\<lambda>r. foldProcessStats (fst r) (fst (snd r)) (snd (snd r))) ?rs []"
    by (rule readPids_fold)
  from u have eu: "entryOrEmpty m uid = u" by (simp add: entryOrEmpty_def)
  have e0: "entryOrEmpty [] uid = emptyUidProcStats" by (simp add: entryOrEmpty_def)
  have cpu: "UidProcStats.cpuTimeMillis u =
      sum_list (map (\<lambda>r. ProcessStats.cpuTimeMillis (snd (snd r))) ?mine)"
    using fold_foldProcessStats_sum [of UidProcStats.cpuTimeMillis uid ProcessStats.cpuTimeMillis ?rs "[]"]
    by (simp add: entryOrEmpty_foldProcessStats eu [unfolded m] e0 emptyUidProcStats_def)
  have mf: "UidProcStats.totalMajorFaults u =
      sum_list (map (\<lambda>r. ProcessStats.totalMajorFaults (snd (snd r))) ?mine)"
    using fold_foldProcessStats_sum [of UidProcStats.totalMajorFaults uid ProcessStats.totalMajorFaults ?rs "[]"]
    by (simp add: entryOrEmpty_foldProcessStats eu [unfolded m] e0 emptyUidProcStats_def)
  have tasks: "UidProcStats.totalTasksCount u =
      sum_list (map (\<lambda>r. ProcessStats.totalTasksCount (snd (snd r))) ?mine)"
    using fold_foldProcessStats_sum [of UidProcStats.totalTasksCount uid ProcessStats.totalTasksCount ?rs "[]"]
    by (simp add: entryOrEmpty_foldProcessStats eu [unfolded m] e0 emptyUidProcStats_def)
  have io: "UidProcStats.ioBlockedTasksCount u =
      sum_list (map (\<lambda>r. ProcessStats.ioBlockedTasksCount (snd (snd r))) ?mine)"
    using fold_foldProcessStats_sum [of UidProcStats.ioBlockedTasksCount uid ProcessStats.ioBlockedTasksCount ?rs "[]"]
    by (simp add: entryOrEmpty_foldProcessStats eu [unfolded m] e0 emptyUidProcStats_def)
  have rss: "totalRssKb u = sum_list (map (\<lambda>r. rssKb (snd (snd r))) ?mine)"
    using fold_foldProcessStats_sum [of totalRssKb uid rssKb ?rs "[]"]
    by (simp add: entryOrEmpty_foldProcessStats eu [unfolded m] e0 emptyUidProcStats_def)
  have pss: "totalPssKb u = sum_list (map (\<lambda>r. pssKb (snd (snd r))) ?mine)"
    using fold_foldProcessStats_sum [of totalPssKb uid pssKb ?rs "[]"]
    by (simp add: entryOrEmpty_foldProcessStats eu [unfolded m] e0 emptyUidProcStats_def)
  have cyc: "unat (cpuCycles u) =
      min (sum_list (map (\<lambda>r. unat (totalCpuCycles (snd (snd r)))) ?mine)) 18446744073709551615"
    using fold_foldProcessStats_cpuCycles [of ?rs "[]" uid]
    by (simp add: eu [unfolded m] e0 emptyUidProcStats_def)
  show ?thesis
    by (simp add: cpu mf tasks io rss pss cyc unat_sum_list comp_def)
qed

theorem uid_fold_sums_witness:
  "\<exists>m u. procDir (procfs3 ''1'' ''220'') =
           Some [\<lparr>d_isdir = True, d_name = ''1''\<rparr>, \<lparr>d_isdir = True, d_name = ''2''\<rparr>,
                 \<lparr>d_isdir = True, d_name = ''3''\<rparr>] \<and>
         readUidProcStatsLocked collector0 (procfs3 ''1'' ''220'') = Inr m \<and>
         map_of m 1000 = Some u \<and>
         unat (UidProcStats.cpuTimeMillis u) = 30 \<and>
         unat (UidProcStats.totalMajorFaults u) = 660 \<and>
         unat (cpuCycles u) = 0"
proof -
  let ?entries = "[\<lparr>d_isdir = True, d_name = ''1''\<rparr>, \<lparr>d_isdir = True, d_name = ''2''\<rparr>,
                   \<lparr>d_isdir = True, d_name = ''3''\<rparr>]"
  have dir: "procDir (procfs3 ''1'' ''220'') = Some ?entries"
    by (simp add: procfs3_def decimalEnv_def)
  have ok: "readUidProcStatsLocked collector0 (procfs3 ''1'' ''220'') = Inr [(1000, appUid 30 660 10 220)]"
    by code_simp
  have u: "map_of [(1000 :: uid_t, appUid 30 660 10 220)] 1000 = Some (appUid 30 660 10 220)"
    by simp
  have "unat (UidProcStats.cpuTimeMillis (appUid 30 660 10 220)) = 30"
    and "unat (UidProcStats.totalMajorFaults (appUid 30 660 10 220)) = 660"
    and "unat (cpuCycles (appUid 30 660 10 220)) = 0"
    using uid_fold_sums [OF dir ok u] by (simp_all add: appUid_def)
  with dir ok u show ?thesis by blast
qed

text \<open>
  C7, as the claim has it, fails: three processes of one UID with 6148914691236517210 ms
  of CPU time each give the UID 14 ms, the sum modulo \<open>2^64\<close>, where a saturating sum
  gives \<open>2^64 - 1\<close>.
\<close>

theorem uid_cpu_time_wraps:
  "readUidProcStatsLocked collector0 (procfs3 ''614891469123651721'' ''220'') =
     Inr [(1000, appUid 14 660 6148914691236517210 220)] \<and>
   saturatedSum [6148914691236517210, 6148914691236517210, 6148914691236517210] =
     18446744073709551615"
  by code_simp

section \<open>Well-formed snapshots\<close>

lemma update_new_key: "k \<notin> fst ` set al \<Longrightarrow> AList.update k v al = al @ [(k, v)]"
  by (induction al) auto

lemma saturatedSum_snoc: "saturatedSum (xs @ [x]) = addUint64 (saturatedSum xs) x"
  by (simp add: saturatedSum_def)

lemma wellFormedProcess_add_thread:
  assumes "wellFormedProcess p" and "tid \<notin> fst ` set (cpuCyclesByTid p)"
  shows "wellFormedProcess
           (p\<lparr>totalCpuCycles := addUint64 (totalCpuCycles p) cycles,
              cpuCyclesByTid := AList.update tid cycles (cpuCyclesByTid p)\<rparr>)"
  using assms by (simp add: wellFormedProcess_def update_new_key saturatedSum_snoc)

lemma wellFormedProcess_counts:
  "wellFormedProcess
     (p\<lparr>ProcessStats.ioBlockedTasksCount := io, ProcessStats.totalTasksCount := n\<rparr>) =
   wellFormedProcess p"
  by (simp add: wellFormedProcess_def)

lemma listedIds_Cons:
  "listedIds e (d # ds) =
     (if d_isdir d then (case ParseIntPid e (d_name d) of None \<Rightarrow> listedIds e ds
                         | Some i \<Rightarrow> i # listedIds e ds)
      else listedIds e ds)"
  by (simp add: listedIds_def List.map_filter_simps split: option.splits)

lemma listedIds_Nil: "listedIds e [] = []"
  by (simp add: listedIds_def List.map_filter_simps)

text \<open>The loop over the threads keeps a process well-formed.\<close>

lemma readThreads_wellFormed:
  "readThreads c e pid entries p = Inr p' \<Longrightarrow> wellFormedProcess p \<Longrightarrow>
   distinct (listedIds e entries) \<Longrightarrow>
   set (listedIds e entries) \<inter> fst ` set (cpuCyclesByTid p) = {} \<Longrightarrow>
   wellFormedProcess p'"
proof (induction entries arbitrary: p)
  case Nil
  then show ?case by simp
next
  case (Cons d ds)
  show ?case
  proof (cases "d_isdir d")
    case False
    with Cons show ?thesis by (simp add: listedIds_Cons)
  next
    case True
    show ?thesis
    proof (cases "ParseIntPid e (d_name d)")
      case None
      with True Cons show ?thesis by (simp add: listedIds_Cons)
    next
      case (Some tid)
      from Cons.prems(3,4) True Some
      have dist: "distinct (listedIds e ds)" and new: "tid \<notin> set (listedIds e ds)"
        and fresh: "tid \<notin> fst ` set (cpuCyclesByTid p)"
        and disj: "set (listedIds e ds) \<inter> fst ` set (cpuCyclesByTid p) = {}"
        by (auto simp: listedIds_Cons)
      have step: "\<exists>q. readThreads c e pid ds q = Inr p' \<and>
          ((cpuCyclesByTid q = cpuCyclesByTid p \<and> totalCpuCycles q = totalCpuCycles p) \<or>
           (\<exists>cycles. cpuCyclesByTid q = AList.update tid cycles (cpuCyclesByTid p) \<and>
                      totalCpuCycles q = addUint64 (totalCpuCycles p) cycles))"
        using Cons.prems(1) True Some
        by (simp split: if_splits sum.splits) fastforce+
      then obtain q where q: "readThreads c e pid ds q = Inr p'"
        and fields: "(cpuCyclesByTid q = cpuCyclesByTid p \<and> totalCpuCycles q = totalCpuCycles p) \<or>
           (\<exists>cycles. cpuCyclesByTid q = AList.update tid cycles (cpuCyclesByTid p) \<and>
                      totalCpuCycles q = addUint64 (totalCpuCycles p) cycles)"
        by blast
      from fields Cons.prems(2) fresh have wfq: "wellFormedProcess q"
        by (auto simp: wellFormedProcess_def update_new_key saturatedSum_snoc)
      have keys: "fst ` set (cpuCyclesByTid q) \<subseteq> insert tid (fst ` set (cpuCyclesByTid p))"
        using fields
      proof
        assume "cpuCyclesByTid q = cpuCyclesByTid p \<and> totalCpuCycles q = totalCpuCycles p"
        then show ?thesis by auto
      next
        assume "\<exists>cycles. cpuCyclesByTid q = AList.update tid cycles (cpuCyclesByTid p) \<and>
                      totalCpuCycles q = addUint64 (totalCpuCycles p) cycles"
        then obtain cycles where
          "cpuCyclesByTid q = AList.update tid cycles (cpuCyclesByTid p)" by blast
        then have "fst ` set (cpuCyclesByTid q) = {tid} \<union> fst ` set (cpuCyclesByTid p)"
          by (simp only: dom_update)
        then show ?thesis by blast
      qed
      with new disj have "set (listedIds e ds) \<inter> fst ` set (cpuCyclesByTid q) = {}"
        by blast
      with q wfq dist show ?thesis by (rule Cons.IH)
    qed
  qed
qed

lemma readSmapsRollup_cycles:
  "cpuCyclesByTid (snd (readSmapsRollup c e pid p)) = cpuCyclesByTid p \<and>
   totalCpuCycles (snd (readSmapsRollup c e pid p)) = totalCpuCycles p"
  by (simp add: readSmapsRollup_def split: option.splits)

lemma statmFallback_cycles:
  "cpuCyclesByTid (statmFallback k r p) = cpuCyclesByTid p \<and>
   totalCpuCycles (statmFallback k r p) = totalCpuCycles p"
  by (simp add: statmFallback_def Let_def)

lemma readMemory_cycles:
  assumes "readMemory c e pid p = Inr q"
  shows "cpuCyclesByTid q = cpuCyclesByTid p \<and> totalCpuCycles q = totalCpuCycles p"
proof (cases "mIsMemoryProfilingEnabled c")
  case False
  with assms show ?thesis by (simp add: readMemory_def)
next
  case True
  obtain b p1 where r: "readSmapsRollup c e pid p = (b, p1)"
    by (cases "readSmapsRollup c e pid p")
  with readSmapsRollup_cycles [of c e pid p]
  have p1: "cpuCyclesByTid p1 = cpuCyclesByTid p \<and> totalCpuCycles p1 = totalCpuCycles p"
    by simp
  show ?thesis
  proof (cases b)
    case True
    with assms \<open>mIsMemoryProfilingEnabled c\<close> r p1 show ?thesis
      by (simp add: readMemory_def)
  next
    case False
    with assms \<open>mIsMemoryProfilingEnabled c\<close> r p1 show ?thesis
      by (auto simp: readMemory_def statmFallback_cycles split: sum.splits if_splits)
  qed
qed

lemma readProcessStatsLocked_wellFormed:
  assumes ok: "readProcessStatsLocked c e pid = Inr (uid, p)"
    and tids: "\<And>entries. taskDir e pid = Some entries \<Longrightarrow> distinct (listedIds e entries)"
  shows "wellFormedProcess p"
proof (cases "readPidStatFile e (StatFile pid) (mMillisPerClockTick c)")
  case (Inl err)
  with ok show ?thesis by (simp add: readProcessStatsLocked_def)
next
  case stat: (Inr pidStat)
  show ?thesis
  proof (cases "readUidAndTgid c e pid pidStat")
    case (Inl err)
    with ok stat show ?thesis by (simp add: readProcessStatsLocked_def)
  next
    case ids: (Inr ut)
    obtain uid' tgid where ut: "ut = (uid', tgid)" by (cases ut)
    let ?init = "\<lparr>ProcessStats.comm = PidStat.comm pidStat,
             ProcessStats.startTimeMillis = PidStat.startTimeMillis pidStat,
             ProcessStats.cpuTimeMillis = PidStat.cpuTimeMillis pidStat,
             totalCpuCycles = 0,
             ProcessStats.totalMajorFaults = majorFaults pidStat,
             ProcessStats.totalTasksCount = 1,
             ProcessStats.ioBlockedTasksCount = (if PidStat.state pidStat = ''D'' then 1 else 0),
             cpuCyclesByTid = [],
             rssKb = 0, pssKb = 0, ussKb = 0, swapPssKb = 0\<rparr>"
    show ?thesis
    proof (cases "uid' = - 1 \<or> tgid \<noteq> pid")
      case True
      with ok stat ids ut show ?thesis by (simp add: readProcessStatsLocked_def)
    next
      case proceed: False
      show ?thesis
      proof (cases "readMemory c e pid ?init")
        case (Inl err)
        with ok stat ids ut proceed show ?thesis by (simp add: readProcessStatsLocked_def)
      next
        case mem: (Inr q)
        from readMemory_cycles [OF mem] have q: "cpuCyclesByTid q = []" "totalCpuCycles q = 0"
          by simp_all
        then have wfq: "wellFormedProcess q"
          by (simp add: wellFormedProcess_def saturatedSum_def)
        show ?thesis
        proof (cases "taskDir e pid")
          case None
          with ok stat ids ut proceed mem have "p = q"
            by (simp add: readProcessStatsLocked_def)
          with wfq show ?thesis by simp
        next
          case (Some entries)
          with ok stat ids ut proceed mem have "readThreads c e pid entries q = Inr p"
            by (simp add: readProcessStatsLocked_def split: sum.splits)
          moreover from tids Some have "distinct (listedIds e entries)" by simp
          ultimately show ?thesis
            using wfq q by (intro readThreads_wellFormed [of c e pid entries q p]) simp_all
        qed
      qed
    qed
  qed
qed

lemma list_all_update:
  "list_all P al \<Longrightarrow> P (k, v) \<Longrightarrow> list_all P (AList.update k v al)"
  by (induction al) auto

lemma wellFormedUid_empty: "wellFormedUid emptyUidProcStats"
  by (simp add: wellFormedUid_def emptyUidProcStats_def saturatedSum_def)

lemma wellFormedUid_entryOrEmpty: "wellFormed m \<Longrightarrow> wellFormedUid (entryOrEmpty m uid)"
proof (cases "map_of m uid")
  case None
  then show ?thesis by (simp add: entryOrEmpty_def wellFormedUid_empty)
next
  case (Some u)
  assume "wellFormed m"
  moreover from Some have "(uid, u) \<in> set m" by (rule map_of_SomeD)
  ultimately have "wellFormedUid u" by (auto simp: wellFormed_def list_all_iff)
  with Some show ?thesis by (simp add: entryOrEmpty_def)
qed

lemma wellFormed_foldProcessStats:
  assumes m: "wellFormed m" and p: "wellFormedProcess p"
    and new: "pid \<notin> fst ` set (processStatsByPid (entryOrEmpty m uid))"
  shows "wellFormed (foldProcessStats uid pid p m)"
proof -
  let ?u = "entryOrEmpty m uid"
  have u: "wellFormedUid ?u" using m by (rule wellFormedUid_entryOrEmpty)
  have "wellFormedUid
          (?u\<lparr>UidProcStats.cpuTimeMillis :=
                 UidProcStats.cpuTimeMillis ?u + ProcessStats.cpuTimeMillis p,
               cpuCycles := addUint64 (cpuCycles ?u) (totalCpuCycles p),
               UidProcStats.totalMajorFaults :=
                 UidProcStats.totalMajorFaults ?u + ProcessStats.totalMajorFaults p,
               UidProcStats.totalTasksCount :=
                 UidProcStats.totalTasksCount ?u + ProcessStats.totalTasksCount p,
               UidProcStats.ioBlockedTasksCount :=
                 UidProcStats.ioBlockedTasksCount ?u + ProcessStats.ioBlockedTasksCount p,
               totalRssKb := totalRssKb ?u + rssKb p,
               totalPssKb := totalPssKb ?u + pssKb p,
               processStatsByPid := AList.update pid p (processStatsByPid ?u)\<rparr>)"
    using u p new
    by (simp add: wellFormedUid_def update_new_key saturatedSum_snoc)
  with m show ?thesis
    by (simp add: foldProcessStats_def Let_def wellFormed_def distinct_update list_all_update)
qed

lemma keys_foldProcessStats:
  "fst ` set (processStatsByPid (entryOrEmpty (foldProcessStats uid pid p m) uid')) \<subseteq>
     insert pid (fst ` set (processStatsByPid (entryOrEmpty m uid')))"
proof (cases "uid' = uid")
  case True
  then have "processStatsByPid (entryOrEmpty (foldProcessStats uid pid p m) uid') =
               AList.update pid p (processStatsByPid (entryOrEmpty m uid'))"
    by (simp add: entryOrEmpty_foldProcessStats)
  then have "fst ` set (processStatsByPid (entryOrEmpty (foldProcessStats uid pid p m) uid')) =
               {pid} \<union> fst ` set (processStatsByPid (entryOrEmpty m uid'))"
    by (simp only: dom_update)
  then show ?thesis by blast
next
  case False
  then have "entryOrEmpty (foldProcessStats uid pid p m) uid' = entryOrEmpty m uid'"
    by (simp add: entryOrEmpty_foldProcessStats)
  then show ?thesis by auto
qed

lemma wellFormed_fold:
  assumes "wellFormed m"
    and "\<forall>r\<in>set rs. wellFormedProcess (snd (snd r))"
    and "distinct (map (\<lambda>r. fst (snd r)) rs)"
    and "\<forall>uid. fst ` set (processStatsByPid (entryOrEmpty m uid)) \<inter>
                 set (map (\<lambda>r. fst (snd r)) rs) = {}"
  shows "wellFormed (fold (\<lambda>r. foldProcessStats (fst r) (fst (snd r)) (snd (snd r))) rs m)"
  using assms
proof (induction rs arbitrary: m)
  case Nil
  then show ?case by simp
next
  case (Cons r rs)
  let ?m = "foldProcessStats (fst r) (fst (snd r)) (snd (snd r)) m"
  from Cons.prems(4) have "fst ` set (processStatsByPid (entryOrEmpty m (fst r))) \<inter>
                 set (map (\<lambda>r. fst (snd r)) (r # rs)) = {}"
    by (rule spec)
  moreover have "fst (snd r) \<in> set (map (\<lambda>r. fst (snd r)) (r # rs))" by simp
  ultimately have fresh:
    "fst (snd r) \<notin> fst ` set (processStatsByPid (entryOrEmpty m (fst r)))"
    by blast
  from Cons.prems(2) have "wellFormedProcess (snd (snd r))" by simp
  with Cons.prems(1) have wf: "wellFormed ?m"
    using fresh by (rule wellFormed_foldProcessStats)
  have disj: "\<forall>uid. fst ` set (processStatsByPid (entryOrEmpty ?m uid)) \<inter>
          set (map (\<lambda>r. fst (snd r)) rs) = {}"
  proof
    fix uid
    from Cons.prems(4) have "fst ` set (processStatsByPid (entryOrEmpty m uid)) \<inter>
          set (map (\<lambda>r. fst (snd r)) (r # rs)) = {}"
      by (rule spec)
    moreover have "set (map (\<lambda>r. fst (snd r)) rs) \<subseteq>
          set (map (\<lambda>r. fst (snd r)) (r # rs))"
      by (simp add: subset_insertI)
    ultimately have a: "fst ` set (processStatsByPid (entryOrEmpty m uid)) \<inter>
          set (map (\<lambda>r. fst (snd r)) rs) = {}"
      by blast
    from Cons.prems(3) have b: "fst (snd r) \<notin> set (map (\<lambda>r. fst (snd r)) rs)"
      by simp
    have "fst ` set (processStatsByPid (entryOrEmpty ?m uid)) \<inter>
            set (map (\<lambda>r. fst (snd r)) rs) \<subseteq>
          insert (fst (snd r)) (fst ` set (processStatsByPid (entryOrEmpty m uid))) \<inter>
            set (map (\<lambda>r. fst (snd r)) rs)"
      using keys_foldProcessStats [of "fst r" "fst (snd r)" "snd (snd r)" m uid]
      by (rule Int_mono) (rule subset_refl)
    also have "\<dots> = fst ` set (processStatsByPid (entryOrEmpty m uid)) \<inter>
            set (map (\<lambda>r. fst (snd r)) rs)"
      using b by (simp only: Int_insert_left if_False)
    also note a
    finally show "fst ` set (processStatsByPid (entryOrEmpty ?m uid)) \<inter>
          set (map (\<lambda>r. fst (snd r)) rs) = {}"
      by simp
  qed
  from Cons.prems(2) have ps: "\<forall>r\<in>set rs. wellFormedProcess (snd (snd r))" by simp
  from Cons.prems(3) have ds: "distinct (map (\<lambda>r. fst (snd r)) rs)" by simp
  from wf ps ds disj have "wellFormed
     (fold (\<lambda>r. foldProcessStats (fst r) (fst (snd r)) (snd (snd r))) rs ?m)"
    by (rule Cons.IH)
  then show ?case by simp
qed

lemma readProcesses_pids:
  "map (\<lambda>r. fst (snd r)) (readProcesses c e entries) =
     filter (\<lambda>pid. \<exists>r. readProcessStatsLocked c e pid = Inr r) (listedIds e entries)"
proof (induction entries)
  case Nil
  show ?case by (simp add: listedIds_Nil)
next
  case (Cons d ds)
  show ?case
  proof (cases "d_isdir d")
    case False
    then show ?thesis by (simp add: Cons.IH listedIds_Cons)
  next
    case True
    show ?thesis
    proof (cases "ParseIntPid e (d_name d)")
      case None
      with True show ?thesis by (simp add: Cons.IH listedIds_Cons)
    next
      case (Some pid)
      show ?thesis
      proof (cases "readProcessStatsLocked c e pid")
        case (Inl err)
        with True Some show ?thesis by (simp add: Cons.IH listedIds_Cons)
      next
        case (Inr r)
        with True Some show ?thesis
          by (cases r) (simp add: Cons.IH listedIds_Cons)
      qed
    qed
  qed
qed

lemma readProcesses_results:
  "r \<in> set (readProcesses c e entries) \<Longrightarrow>
   readProcessStatsLocked c e (fst (snd r)) = Inr (fst r, snd (snd r))"
proof (induction entries)
  case Nil
  then show ?case by simp
next
  case (Cons d ds)
  show ?case
  proof (cases "d_isdir d")
    case False
    with Cons show ?thesis by simp
  next
    case True
    show ?thesis
    proof (cases "ParseIntPid e (d_name d)")
      case None
      with True Cons show ?thesis by simp
    next
      case (Some pid)
      show ?thesis
      proof (cases "readProcessStatsLocked c e pid")
        case (Inl err)
        with True Some Cons show ?thesis by simp
      next
        case (Inr res)
        obtain uid p where res: "res = (uid, p)" by (cases res)
        from Cons.prems True Some Inr res
        have "r = (uid, pid, p) \<or> r \<in> set (readProcesses c e ds)" by simp
        then show ?thesis
        proof
          assume "r = (uid, pid, p)"
          with Inr res show ?thesis by simp
        next
          assume "r \<in> set (readProcesses c e ds)"
          then show ?thesis by (rule Cons.IH)
        qed
      qed
    qed
  qed
qed

text \<open>
  The snapshot that \<^verbatim>\<open>readUidProcStatsLocked\<close> returns is well-formed when the root
  directory lists every PID once and every task directory lists every TID once.
\<close>

theorem readUidProcStatsLocked_wellFormed:
  assumes dir: "procDir e = Some entries"
    and ok: "readUidProcStatsLocked c e = Inr m"
    and pids: "distinct (listedIds e entries)"
    and tids: "\<And>pid threads. taskDir e pid = Some threads \<Longrightarrow> distinct (listedIds e threads)"
  shows "wellFormed m"
proof -
  let ?rs = "readProcesses c e entries"
  from ok dir have "readPids c e entries [] = Inr m"
    by (simp add: readUidProcStatsLocked_def)
  then have m: "m = fold (\<lambda>r. foldProcessStats (fst r) (fst (snd r)) (snd (snd r))) ?rs []"
    by (rule readPids_fold)
  have w0: "wellFormed []" by (simp add: wellFormed_def)
  have w1: "\<forall>r\<in>set ?rs. wellFormedProcess (snd (snd r))"
  proof
    fix r
    assume "r \<in> set ?rs"
    then have "readProcessStatsLocked c e (fst (snd r)) = Inr (fst r, snd (snd r))"
      by (rule readProcesses_results)
    then show "wellFormedProcess (snd (snd r))"
      using tids by (rule readProcessStatsLocked_wellFormed)
  qed
  have w2: "distinct (map (\<lambda>r. fst (snd r)) ?rs)"
    using pids by (simp add: readProcesses_pids)
  have w3: "\<forall>uid. fst ` set (processStatsByPid (entryOrEmpty [] uid)) \<inter>
                 set (map (\<lambda>r. fst (snd r)) ?rs) = {}"
    by (simp add: entryOrEmpty_def emptyUidProcStats_def)
  from w0 w1 w2 w3 show ?thesis
    unfolding m by (rule wellFormed_fold)
qed

section \<open>Failed collections\<close>

text \<open>
  A failure other than a warning for one listed process, or for the stat file of one
  listed thread, ends the loop it occurs in with a failure other than a warning.
\<close>

lemma readPids_failure:
  assumes "pidDir \<in> set entries" and "d_isdir pidDir"
    and "ParseIntPid e (d_name pidDir) = Some pid"
    and "readProcessStatsLocked c e pid = Inl err" and "err \<noteq> READ_WARNING"
  shows "\<exists>err'. readPids c e entries acc = Inl err' \<and> err' \<noteq> READ_WARNING"
  using assms(1)
proof (induction entries arbitrary: acc)
  case Nil
  then show ?case by simp
next
  case (Cons d rest)
  show ?case
  proof (cases "d = pidDir")
    case True
    with assms(2-5) show ?thesis by simp
  next
    case False
    with Cons.prems have "pidDir \<in> set rest" by simp
    then have "\<And>acc'. \<exists>err'. readPids c e rest acc' = Inl err' \<and> err' \<noteq> READ_WARNING"
      by (rule Cons.IH)
    then show ?thesis
      by (auto split: option.splits sum.splits)
  qed
qed

lemma readThreads_failure:
  assumes "tidDir \<in> set entries" and "d_isdir tidDir"
    and "ParseIntPid e (d_name tidDir) = Some tid" and "tid \<noteq> pid"
    and "readPidStatFile e (TaskStatFile pid tid) (mMillisPerClockTick c) = Inl err"
    and "err \<noteq> READ_WARNING"
  shows "\<exists>err'. readThreads c e pid entries processStats = Inl err' \<and> err' \<noteq> READ_WARNING"
  using assms(1)
proof (induction entries arbitrary: processStats)
  case Nil
  then show ?case by simp
next
  case (Cons d rest)
  show ?case
  proof (cases "d = tidDir")
    case True
    with assms(2-6) show ?thesis by simp
  next
    case False
    with Cons.prems have "tidDir \<in> set rest" by simp
    then have "\<And>ps. \<exists>err'. readThreads c e pid rest ps = Inl err' \<and> err' \<noteq> READ_WARNING"
      by (rule Cons.IH)
    then show ?thesis
      by (auto split: option.splits sum.splits)
  qed
qed

text \<open>
  C4. When \<^verbatim>\<open>collect\<close> returns an error, the collector is the one before the call, so
  both accessors return the snapshots they returned before. A new pair of snapshots is
  stored only when \<^verbatim>\<open>collect\<close> succeeds: the latest one is the snapshot just read and the
  delta is computed from it and the previous latest one. A failure other than a warning
  while the statistics of any listed process are read makes \<^verbatim>\<open>collect\<close> return an error.
\<close>

theorem collect_error_keeps_snapshots:
  "(\<forall>err. fst (collect c e) = Inl err \<longrightarrow>
      snd (collect c e) = c \<and>
      latestStats (snd (collect c e)) = latestStats c \<and>
      deltaStats (snd (collect c e)) = deltaStats c) \<and>
   (fst (collect c e) = Inr () \<longrightarrow>
      (\<exists>uidProcStatsByUid. readUidProcStatsLocked c e = Inr uidProcStatsByUid \<and>
         latestStats (snd (collect c e)) = uidProcStatsByUid \<and>
         deltaStats (snd (collect c e)) = computeDelta (latestStats c) uidProcStatsByUid)) \<and>
   (\<forall>entries pidDir pid err.
      procDir e = Some entries \<and> pidDir \<in> set entries \<and> d_isdir pidDir \<and>
      ParseIntPid e (d_name pidDir) = Some pid \<and>
      readProcessStatsLocked c e pid = Inl err \<and> err \<noteq> READ_WARNING \<longrightarrow>
      (\<exists>err'. fst (collect c e) = Inl err'))"
proof -
  have unchanged: "snd (collect c e) = c" if "fst (collect c e) = Inl err" for err
    using that by (auto simp: collect_def split: if_splits sum.splits)
  have published:
    "\<exists>uidProcStatsByUid. readUidProcStatsLocked c e = Inr uidProcStatsByUid \<and>
         latestStats (snd (collect c e)) = uidProcStatsByUid \<and>
         deltaStats (snd (collect c e)) = computeDelta (latestStats c) uidProcStatsByUid"
    if "fst (collect c e) = Inr ()"
    using that
    by (auto simp: collect_def latestStats_def deltaStats_def split: if_splits sum.splits)
  have fails: "\<exists>err'. fst (collect c e) = Inl err'"
    if a: "procDir e = Some entries \<and> pidDir \<in> set entries \<and> d_isdir pidDir \<and>
      ParseIntPid e (d_name pidDir) = Some pid \<and>
      readProcessStatsLocked c e pid = Inl err \<and> err \<noteq> READ_WARNING"
    for entries pidDir pid err
  proof -
    from a obtain err' where "readPids c e entries [] = Inl err'"
      using readPids_failure [of pidDir entries e pid c err "[]"] by blast
    with a show ?thesis
      by (simp add: collect_def readUidProcStatsLocked_def)
  qed
  from unchanged published fails show ?thesis by simp blast
qed

theorem collect_error_keeps_snapshots_witness:
  "fst (collect collectorAfter procfsBad) = Inl READ_ERROR \<and>
   snd (collect collectorAfter procfsBad) = collectorAfter \<and>
   latestStats (snd (collect collectorAfter procfsBad)) = [(1000, appUid 30 660 10 220)] \<and>
   deltaStats (snd (collect collectorAfter procfsBad)) = [(1000, appUid 30 660 10 220)] \<and>
   fst (collect collector0 (procfs3 ''1'' ''220'')) = Inr () \<and>
   latestStats (snd (collect collector0 (procfs3 ''1'' ''220''))) = [(1000, appUid 30 660 10 220)]"
proof -
  have err: "fst (collect collectorAfter procfsBad) = Inl READ_ERROR"
    by code_simp
  have ok: "fst (collect collector0 (procfs3 ''1'' ''220'')) = Inr ()"
    by code_simp
  have r: "readUidProcStatsLocked collector0 (procfs3 ''1'' ''220'') = Inr [(1000, appUid 30 660 10 220)]"
    by code_simp
  have l: "latestStats collectorAfter = [(1000, appUid 30 660 10 220)]"
    and d: "deltaStats collectorAfter = [(1000, appUid 30 660 10 220)]"
    by (simp_all add: latestStats_def deltaStats_def collectorAfter_def)
  from collect_error_keeps_snapshots [of collectorAfter procfsBad] err
  have "snd (collect collectorAfter procfsBad) = collectorAfter \<and>
      latestStats (snd (collect collectorAfter procfsBad)) = latestStats collectorAfter \<and>
      deltaStats (snd (collect collectorAfter procfsBad)) = deltaStats collectorAfter"
    by blast
  moreover from collect_error_keeps_snapshots [of collector0 "procfs3 ''1'' ''220''"] ok r
  have "latestStats (snd (collect collector0 (procfs3 ''1'' ''220''))) = [(1000, appUid 30 660 10 220)]"
    by auto
  ultimately show ?thesis using err ok l d by simp
qed
section \<open>The delta snapshot\<close>

text \<open>
  The value of an \<^verbatim>\<open>int64_t\<close>, and the values on which the signed and the unsigned
  comparison agree: those that are not negative.
\<close>

lemma sint_i64:
  "sint (w :: i64) = (if uint w < 2 ^ 63 then uint w else uint w - 2 ^ 64)"
proof -
  have lt: "uint w < 2 ^ 64" using uint_lt2p [of w] by simp
  have ge: "0 \<le> uint w" by simp
  have s: "sint w = (uint w + 2 ^ 63) mod 2 ^ 64 - 2 ^ 63"
    by (simp add: sint_uint signed_take_bit_eq_take_bit_shift take_bit_eq_mod)
  show ?thesis
  proof (cases "uint w < 2 ^ 63")
    case True
    then have "(uint w + 2 ^ 63) mod 2 ^ 64 = uint w + 2 ^ 63"
      using ge by (intro mod_pos_pos_trivial) simp_all
    with True s show ?thesis by simp
  next
    case False
    have "(uint w + 2 ^ 63) mod 2 ^ 64 = (uint w + 2 ^ 63 - 2 ^ 64) mod 2 ^ 64"
      using mod_add_self2 [of "uint w + 2 ^ 63 - 2 ^ 64" "2 ^ 64"] by (simp add: add.commute)
    also have "\<dots> = uint w + 2 ^ 63 - 2 ^ 64"
      using False lt by (intro mod_pos_pos_trivial) simp_all
    finally show ?thesis using False s by simp
  qed
qed

lemma sle_zero_iff: "(0 :: i64) \<le>s w \<longleftrightarrow> unat w < 2 ^ 63"
proof -
  have lt: "uint w < 2 ^ 64" using uint_lt2p [of w] by simp
  have "(0 :: i64) \<le>s w \<longleftrightarrow> uint w < 2 ^ 63"
    using lt by (simp add: word_sle_eq sint_i64)
  also have "\<dots> \<longleftrightarrow> int (unat w) < 2 ^ 63" by simp
  also have "\<dots> \<longleftrightarrow> unat w < 2 ^ 63" by (simp only: of_nat_less_numeral_power_cancel_iff)
  finally show ?thesis .
qed

lemma sle_iff_le:
  assumes "(0 :: i64) \<le>s a" and "(0 :: i64) \<le>s b"
  shows "a \<le>s b \<longleftrightarrow> a \<le> b"
proof -
  have "uint a < 2 ^ 64" "uint b < 2 ^ 64"
    using uint_lt2p [of a] uint_lt2p [of b] by simp_all
  with assms have "uint a < 2 ^ 63" "uint b < 2 ^ 63"
    by (simp_all add: word_sle_eq sint_i64 split: if_splits)
  then show ?thesis by (simp add: word_sle_eq sint_i64 word_le_def)
qed

lemma map_of_fold_update:
  assumes "distinct (map fst xs)"
  shows "map_of (fold (\<lambda>entry m. AList.update (fst entry) (f entry) m) xs m0) k =
           (case map_of xs k of Some v \<Rightarrow> Some (f (k, v)) | None \<Rightarrow> map_of m0 k)"
  using assms
proof (induction xs arbitrary: m0)
  case Nil
  show ?case by simp
next
  case (Cons x xs)
  then have d: "distinct (map fst xs)" and n: "fst x \<notin> fst ` set xs" by auto
  from n have none: "map_of xs (fst x) = None"
    by (simp add: map_of_eq_None_iff)
  have step: "map_of (fold (\<lambda>entry m. AList.update (fst entry) (f entry) m) (x # xs) m0) k =
     (case map_of xs k of Some v \<Rightarrow> Some (f (k, v))
      | None \<Rightarrow> map_of (AList.update (fst x) (f x) m0) k)"
    using Cons.IH [OF d, of "AList.update (fst x) (f x) m0"] by simp
  show ?case
  proof (cases "k = fst x")
    case True
    with step none show ?thesis by (simp add: update_conv')
  next
    case False
    with step show ?thesis by (simp add: update_conv' split: option.splits)
  qed
qed

lemma deltaThreadCpuCycles_le: "deltaThreadCpuCycles prev tid cycles \<le> cycles"
  by (simp add: deltaThreadCpuCycles_def word_sub_le split: option.splits)

lemma deltaThreadCpuCycles_reset:
  "map_of prev tid = Some p \<Longrightarrow> cycles < p \<Longrightarrow> deltaThreadCpuCycles prev tid cycles = cycles"
  by (auto simp: deltaThreadCpuCycles_def dest: leD)

lemma threadStep_fields:
  "cpuCyclesByTid (threadStep pp t d) =
     AList.update (fst t) (deltaThreadCpuCycles (cpuCyclesByTid pp) (fst t) (snd t))
       (cpuCyclesByTid d)"
  "totalCpuCycles (threadStep pp t d) =
     addUint64 (totalCpuCycles d) (deltaThreadCpuCycles (cpuCyclesByTid pp) (fst t) (snd t))"
  "ProcessStats.comm (threadStep pp t d) = ProcessStats.comm d"
  "ProcessStats.startTimeMillis (threadStep pp t d) = ProcessStats.startTimeMillis d"
  "ProcessStats.cpuTimeMillis (threadStep pp t d) = ProcessStats.cpuTimeMillis d"
  "ProcessStats.totalMajorFaults (threadStep pp t d) = ProcessStats.totalMajorFaults d"
  "ProcessStats.totalTasksCount (threadStep pp t d) = ProcessStats.totalTasksCount d"
  "ProcessStats.ioBlockedTasksCount (threadStep pp t d) = ProcessStats.ioBlockedTasksCount d"
  "rssKb (threadStep pp t d) = rssKb d"
  "pssKb (threadStep pp t d) = pssKb d"
  "ussKb (threadStep pp t d) = ussKb d"
  "swapPssKb (threadStep pp t d) = swapPssKb d"
  by (simp_all add: threadStep_def Let_def)

lemma fold_threadStep_tids:
  "cpuCyclesByTid (fold (threadStep pp) tids d) =
     fold (\<lambda>entry m. AList.update (fst entry)
             (deltaThreadCpuCycles (cpuCyclesByTid pp) (fst entry) (snd entry)) m)
       tids (cpuCyclesByTid d)"
  by (induction tids arbitrary: d) (simp_all add: threadStep_fields)

lemma fold_threadStep_total:
  "unat (totalCpuCycles (fold (threadStep pp) tids d)) =
     min (unat (totalCpuCycles d) +
          sum_list (map (\<lambda>entry. unat (deltaThreadCpuCycles (cpuCyclesByTid pp)
                                          (fst entry) (snd entry))) tids))
       18446744073709551615"
proof (induction tids arbitrary: d)
  case Nil
  show ?case using unat_u64_le_max [of "totalCpuCycles d"] by simp
next
  case (Cons t tids)
  show ?case
    by (simp add: Cons.IH threadStep_fields unat_addUint64 min_saturated_add add.assoc)
qed

lemma fold_threadStep_others:
  "ProcessStats.comm (fold (threadStep pp) tids d) = ProcessStats.comm d"
  "ProcessStats.startTimeMillis (fold (threadStep pp) tids d) = ProcessStats.startTimeMillis d"
  "ProcessStats.cpuTimeMillis (fold (threadStep pp) tids d) = ProcessStats.cpuTimeMillis d"
  "ProcessStats.totalMajorFaults (fold (threadStep pp) tids d) = ProcessStats.totalMajorFaults d"
  "ProcessStats.totalTasksCount (fold (threadStep pp) tids d) = ProcessStats.totalTasksCount d"
  "ProcessStats.ioBlockedTasksCount (fold (threadStep pp) tids d) =
     ProcessStats.ioBlockedTasksCount d"
  "rssKb (fold (threadStep pp) tids d) = rssKb d"
  "pssKb (fold (threadStep pp) tids d) = pssKb d"
  "ussKb (fold (threadStep pp) tids d) = ussKb d"
  "swapPssKb (fold (threadStep pp) tids d) = swapPssKb d"
  by (induction tids arbitrary: d) (simp_all add: threadStep_fields)

lemma deltaProcess_unmatched:
  assumes "\<forall>pp. map_of prevProcs pid = Some pp \<longrightarrow>
             ProcessStats.startTimeMillis pp \<noteq> ProcessStats.startTimeMillis cp"
  shows "deltaProcess prevProcs pid cp = cp"
  using assms by (auto simp: deltaProcess_def split: option.splits)

lemma deltaProcess_matched:
  assumes "map_of prevProcs pid = Some pp"
    and "ProcessStats.startTimeMillis pp = ProcessStats.startTimeMillis cp"
  shows "ProcessStats.cpuTimeMillis (deltaProcess prevProcs pid cp) =
           (if ProcessStats.cpuTimeMillis pp \<le>s ProcessStats.cpuTimeMillis cp
            then ProcessStats.cpuTimeMillis cp - ProcessStats.cpuTimeMillis pp
            else ProcessStats.cpuTimeMillis cp)"
    and "ProcessStats.totalMajorFaults (deltaProcess prevProcs pid cp) =
           (if ProcessStats.totalMajorFaults pp \<le> ProcessStats.totalMajorFaults cp
            then ProcessStats.totalMajorFaults cp - ProcessStats.totalMajorFaults pp
            else ProcessStats.totalMajorFaults cp)"
    and "cpuCyclesByTid (deltaProcess prevProcs pid cp) =
           fold (\<lambda>entry m. AList.update (fst entry)
                   (deltaThreadCpuCycles (cpuCyclesByTid pp) (fst entry) (snd entry)) m)
             (cpuCyclesByTid cp) (cpuCyclesByTid cp)"
    and "unat (totalCpuCycles (deltaProcess prevProcs pid cp)) =
           min (sum_list (map (\<lambda>entry. unat (deltaThreadCpuCycles (cpuCyclesByTid pp)
                                               (fst entry) (snd entry)))
                            (cpuCyclesByTid cp)))
             18446744073709551615"
    and "ProcessStats.comm (deltaProcess prevProcs pid cp) = ProcessStats.comm cp"
    and "ProcessStats.startTimeMillis (deltaProcess prevProcs pid cp) =
           ProcessStats.startTimeMillis cp"
    and "ProcessStats.totalTasksCount (deltaProcess prevProcs pid cp) =
           ProcessStats.totalTasksCount cp"
    and "ProcessStats.ioBlockedTasksCount (deltaProcess prevProcs pid cp) =
           ProcessStats.ioBlockedTasksCount cp"
    and "rssKb (deltaProcess prevProcs pid cp) = rssKb cp"
    and "pssKb (deltaProcess prevProcs pid cp) = pssKb cp"
    and "ussKb (deltaProcess prevProcs pid cp) = ussKb cp"
    and "swapPssKb (deltaProcess prevProcs pid cp) = swapPssKb cp"
  using assms
  by (simp_all add: deltaProcess_def Let_def fold_threadStep_others fold_threadStep_tids
      fold_threadStep_total)

lemma sum_list_unat_mono:
  assumes "\<And>x. x \<in> set xs \<Longrightarrow> f x \<le> g x"
  shows "sum_list (map (\<lambda>x. unat (f x)) xs) \<le> sum_list (map (\<lambda>x. unat (g x)) xs)"
  using assms by (intro sum_list_mono) (simp add: word_le_nat_alt)

lemma processCountersLe_refl:
  "processCountersLe cp cp"
  by (simp add: processCountersLe_def)

lemma processCountersLe_deltaProcess:
  assumes wf: "wellFormedProcess cp"
  shows "processCountersLe (deltaProcess prevProcs pid cp) cp"
proof (cases "\<exists>pp. map_of prevProcs pid = Some pp \<and>
                ProcessStats.startTimeMillis pp = ProcessStats.startTimeMillis cp")
  case False
  then have "deltaProcess prevProcs pid cp = cp"
    by (intro deltaProcess_unmatched) blast
  then show ?thesis by (simp add: processCountersLe_refl)
next
  case True
  then obtain pp where pp: "map_of prevProcs pid = Some pp"
    "ProcessStats.startTimeMillis pp = ProcessStats.startTimeMillis cp" by blast
  note m = deltaProcess_matched [OF pp]
  from wf have dist: "distinct (map fst (cpuCyclesByTid cp))"
    and total: "totalCpuCycles cp = saturatedSum (map snd (cpuCyclesByTid cp))"
    by (simp_all add: wellFormedProcess_def)
  have mf: "ProcessStats.totalMajorFaults (deltaProcess prevProcs pid cp) \<le>
               ProcessStats.totalMajorFaults cp"
    by (simp add: m(2) word_sub_le)
  have "sum_list (map (\<lambda>entry. unat (deltaThreadCpuCycles (cpuCyclesByTid pp)
                                       (fst entry) (snd entry))) (cpuCyclesByTid cp)) \<le>
        sum_list (map (\<lambda>entry. unat (snd entry)) (cpuCyclesByTid cp))"
    by (rule sum_list_unat_mono) (rule deltaThreadCpuCycles_le)
  then have "unat (totalCpuCycles (deltaProcess prevProcs pid cp)) \<le> unat (totalCpuCycles cp)"
    by (simp add: m(4) total unat_saturatedSum comp_def min_le_iff_disj)
  then have cyc: "totalCpuCycles (deltaProcess prevProcs pid cp) \<le> totalCpuCycles cp"
    by (simp add: word_le_nat_alt)
  have tids: "\<exists>y. map_of (cpuCyclesByTid cp) tid = Some y \<and> x \<le> y"
    if "map_of (cpuCyclesByTid (deltaProcess prevProcs pid cp)) tid = Some x" for tid x
    using that deltaThreadCpuCycles_le
    by (auto simp: m(3) map_of_fold_update [OF dist] split: option.splits)
  show ?thesis
    unfolding processCountersLe_def
    using mf cyc tids by (simp add: m)
qed

text \<open>
  The CPU time of the delta of a process is within the current one when neither the
  current CPU time nor the previous one of the same process is negative.
\<close>

lemma deltaProcess_cpuTime:
  assumes prev: "\<And>pp. map_of prevProcs pid = Some pp \<Longrightarrow>
                   ProcessStats.startTimeMillis pp = ProcessStats.startTimeMillis cp \<Longrightarrow>
                   0 \<le>s ProcessStats.cpuTimeMillis pp"
    and cur: "0 \<le>s ProcessStats.cpuTimeMillis cp"
  shows "cpuTimeWithin (deltaProcess prevProcs pid cp) cp"
    and "ProcessStats.cpuTimeMillis (deltaProcess prevProcs pid cp) \<le>
           ProcessStats.cpuTimeMillis cp"
proof -
  let ?d = "ProcessStats.cpuTimeMillis (deltaProcess prevProcs pid cp)"
  let ?c = "ProcessStats.cpuTimeMillis cp"
  have le: "?d \<le> ?c"
  proof (cases "\<exists>pp. map_of prevProcs pid = Some pp \<and>
                  ProcessStats.startTimeMillis pp = ProcessStats.startTimeMillis cp")
    case False
    then have "deltaProcess prevProcs pid cp = cp"
      by (intro deltaProcess_unmatched) blast
    then show ?thesis by simp
  next
    case True
    then obtain pp where pp: "map_of prevProcs pid = Some pp"
      "ProcessStats.startTimeMillis pp = ProcessStats.startTimeMillis cp" by blast
    from prev [OF pp] have nn: "0 \<le>s ProcessStats.cpuTimeMillis pp" .
    show ?thesis
    proof (cases "ProcessStats.cpuTimeMillis pp \<le>s ?c")
      case True
      with sle_iff_le [OF nn cur] have "ProcessStats.cpuTimeMillis pp \<le> ?c" by simp
      then have "?c - ProcessStats.cpuTimeMillis pp \<le> ?c" by (rule word_sub_le)
      with True show ?thesis by (simp add: deltaProcess_matched(1) [OF pp])
    next
      case False
      then show ?thesis by (simp add: deltaProcess_matched(1) [OF pp])
    qed
  qed
  then have "unat ?d \<le> unat ?c" by (simp add: word_le_nat_alt)
  with cur have nn: "0 \<le>s ?d" by (simp add: sle_zero_iff)
  with le have "?d \<le>s ?c" using sle_iff_le [OF nn cur] by simp
  with nn show "cpuTimeWithin (deltaProcess prevProcs pid cp) cp"
    by (simp add: cpuTimeWithin_def)
  show "?d \<le> ?c" by (rule le)
qed

text \<open>
  The condition on the previous CPU time is needed. For a process with a previous CPU
  time of -10 ms and a current one of 10 ms, same start time, line 457 finds
  \<open>-10 \<le> 10\<close> and line 458 subtracts: the delta is 20 ms, for the process and for its
  UID, above the current 10 ms. Both snapshots are well-formed.
\<close>

lemma negative_previous_cpu_time:
  "wellFormed [(1000, uidOf [(1, threadedProcess 5000 (- 10) 0 [])])] \<and>
   wellFormed [(1000, uidOf [(1, threadedProcess 5000 10 0 [])])] \<and>
   map (\<lambda>entry. (fst entry, UidProcStats.cpuTimeMillis (snd entry),
                   map (\<lambda>p. (fst p, ProcessStats.cpuTimeMillis (snd p)))
                     (processStatsByPid (snd entry))))
     (computeDelta [(1000, uidOf [(1, threadedProcess 5000 (- 10) 0 [])])]
        [(1000, uidOf [(1, threadedProcess 5000 10 0 [])])]) =
     [(1000, 20, [(1, 20)])]"
  by code_simp

lemma processStep_fields:
  "processStatsByPid (processStep pu entry d) =
     AList.update (fst entry) (deltaProcess (processStatsByPid pu) (fst entry) (snd entry))
       (processStatsByPid d)"
  "UidProcStats.cpuTimeMillis (processStep pu entry d) =
     UidProcStats.cpuTimeMillis d +
     ProcessStats.cpuTimeMillis (deltaProcess (processStatsByPid pu) (fst entry) (snd entry))"
  "UidProcStats.totalMajorFaults (processStep pu entry d) =
     UidProcStats.totalMajorFaults d +
     ProcessStats.totalMajorFaults (deltaProcess (processStatsByPid pu) (fst entry) (snd entry))"
  "cpuCycles (processStep pu entry d) =
     addUint64 (cpuCycles d)
       (totalCpuCycles (deltaProcess (processStatsByPid pu) (fst entry) (snd entry)))"
  "UidProcStats.totalTasksCount (processStep pu entry d) = UidProcStats.totalTasksCount d"
  "UidProcStats.ioBlockedTasksCount (processStep pu entry d) =
     UidProcStats.ioBlockedTasksCount d"
  "totalRssKb (processStep pu entry d) = totalRssKb d"
  "totalPssKb (processStep pu entry d) = totalPssKb d"
  by (simp_all add: processStep_def Let_def)

lemma fold_processStep_procs:
  "processStatsByPid (fold (processStep pu) ps d) =
     fold (\<lambda>entry m. AList.update (fst entry)
             (deltaProcess (processStatsByPid pu) (fst entry) (snd entry)) m)
       ps (processStatsByPid d)"
  by (induction ps arbitrary: d) (simp_all add: processStep_fields)

lemma fold_processStep_sums:
  "UidProcStats.cpuTimeMillis (fold (processStep pu) ps d) =
     UidProcStats.cpuTimeMillis d +
     sum_list (map (\<lambda>entry. ProcessStats.cpuTimeMillis
                      (deltaProcess (processStatsByPid pu) (fst entry) (snd entry))) ps)"
  "UidProcStats.totalMajorFaults (fold (processStep pu) ps d) =
     UidProcStats.totalMajorFaults d +
     sum_list (map (\<lambda>entry. ProcessStats.totalMajorFaults
                      (deltaProcess (processStatsByPid pu) (fst entry) (snd entry))) ps)"
  "UidProcStats.totalTasksCount (fold (processStep pu) ps d) = UidProcStats.totalTasksCount d"
  "UidProcStats.ioBlockedTasksCount (fold (processStep pu) ps d) =
     UidProcStats.ioBlockedTasksCount d"
  "totalRssKb (fold (processStep pu) ps d) = totalRssKb d"
  "totalPssKb (fold (processStep pu) ps d) = totalPssKb d"
  by (induction ps arbitrary: d) (simp_all add: processStep_fields add.assoc)

lemma fold_processStep_cycles:
  "unat (cpuCycles (fold (processStep pu) ps d)) =
     min (unat (cpuCycles d) +
          sum_list (map (\<lambda>entry. unat (totalCpuCycles
                           (deltaProcess (processStatsByPid pu) (fst entry) (snd entry)))) ps))
       18446744073709551615"
proof (induction ps arbitrary: d)
  case Nil
  show ?case using unat_u64_le_max [of "cpuCycles d"] by simp
next
  case (Cons entry ps)
  show ?case
    by (simp add: Cons.IH processStep_fields unat_addUint64 min_saturated_add add.assoc)
qed

lemma map_of_computeDelta:
  assumes "distinct (map fst cur)"
  shows "map_of (computeDelta prev cur) uid = map_option (deltaUid prev uid) (map_of cur uid)"
  using map_of_fold_update [OF assms, of "\<lambda>entry. deltaUid prev (fst entry) (snd entry)" "[]" uid]
  by (simp add: computeDelta_def split: option.splits)

lemma map_of_deltaUid_procs:
  assumes "distinct (map fst (processStatsByPid cu))"
    and "map_of prev uid = Some pu"
  shows "map_of (processStatsByPid (deltaUid prev uid cu)) pid =
           map_option (deltaProcess (processStatsByPid pu) pid) (map_of (processStatsByPid cu) pid)"
  using map_of_fold_update [OF assms(1),
      of "\<lambda>entry. deltaProcess (processStatsByPid pu) (fst entry) (snd entry)" "[]" pid] assms(2)
  by (simp add: deltaUid_def fold_processStep_procs split: option.splits)

lemma unat_sum_list_fits:
  fixes g :: "'b \<Rightarrow> u64"
  assumes "sum_list (map (\<lambda>x. unat (g x)) xs) < 2 ^ 64"
  shows "unat (sum_list (map g xs)) = sum_list (map (\<lambda>x. unat (g x)) xs)"
proof -
  have "unat (sum_list (map g xs)) = sum_list (map (\<lambda>x. unat (g x)) xs) mod 2 ^ 64"
    by (simp add: unat_sum_list comp_def)
  also have "\<dots> = sum_list (map (\<lambda>x. unat (g x)) xs)"
    using assms by simp
  finally show ?thesis .
qed

lemma sum_list_word_le:
  fixes f g :: "'b \<Rightarrow> u64"
  assumes le: "\<And>x. x \<in> set xs \<Longrightarrow> f x \<le> g x"
    and fits: "sum_list (map (\<lambda>x. unat (g x)) xs) < 2 ^ 64"
  shows "sum_list (map f xs) \<le> sum_list (map g xs)"
proof -
  have mono: "sum_list (map (\<lambda>x. unat (f x)) xs) \<le> sum_list (map (\<lambda>x. unat (g x)) xs)"
    using le by (rule sum_list_unat_mono)
  have "unat (sum_list (map f xs)) = sum_list (map (\<lambda>x. unat (f x)) xs) mod 2 ^ 64"
    by (simp add: unat_sum_list comp_def)
  also have "\<dots> = sum_list (map (\<lambda>x. unat (f x)) xs)"
    using mono fits by simp
  finally have f: "unat (sum_list (map f xs)) = sum_list (map (\<lambda>x. unat (f x)) xs)" .
  have "unat (sum_list (map g xs)) = sum_list (map (\<lambda>x. unat (g x)) xs) mod 2 ^ 64"
    by (simp add: unat_sum_list comp_def)
  also have "\<dots> = sum_list (map (\<lambda>x. unat (g x)) xs)"
    using fits by simp
  finally have g: "unat (sum_list (map g xs)) = sum_list (map (\<lambda>x. unat (g x)) xs)" .
  from mono f g show ?thesis by (simp add: word_le_nat_alt)
qed

lemma deltaUid_absent: "map_of prev uid = None \<Longrightarrow> deltaUid prev uid cu = cu"
  by (simp add: deltaUid_def)

lemma deltaUid_present:
  assumes "map_of prev uid = Some pu"
  shows "deltaUid prev uid cu =
           fold (processStep pu) (processStatsByPid cu)
             \<lparr>UidProcStats.cpuTimeMillis = 0, cpuCycles = 0,
              UidProcStats.totalMajorFaults = 0,
              UidProcStats.totalTasksCount = UidProcStats.totalTasksCount cu,
              UidProcStats.ioBlockedTasksCount = UidProcStats.ioBlockedTasksCount cu,
              totalRssKb = totalRssKb cu,
              totalPssKb = totalPssKb cu,
              processStatsByPid = []\<rparr>"
  using assms by (simp add: deltaUid_def)

lemma wellFormedUid_cpuTime:
  assumes wf: "wellFormedUid cu"
    and fits: "sum_list (map (\<lambda>entry. unat (ProcessStats.cpuTimeMillis (snd entry)))
                    (processStatsByPid cu)) < 2 ^ 63"
  shows "0 \<le>s UidProcStats.cpuTimeMillis cu"
proof -
  from fits have fits64:
    "sum_list (map (\<lambda>entry. unat (ProcessStats.cpuTimeMillis (snd entry)))
       (processStatsByPid cu)) < 2 ^ 64"
    by simp
  from wf have "UidProcStats.cpuTimeMillis cu =
      sum_list (map (\<lambda>entry. ProcessStats.cpuTimeMillis (snd entry)) (processStatsByPid cu))"
    by (simp add: wellFormedUid_def)
  then have "unat (UidProcStats.cpuTimeMillis cu) =
      sum_list (map (\<lambda>entry. unat (ProcessStats.cpuTimeMillis (snd entry)))
        (processStatsByPid cu))"
    by (simp add: unat_sum_list_fits [OF fits64])
  with fits show ?thesis by (simp add: sle_zero_iff)
qed

lemma deltaUid_bounded:
  assumes wf: "wellFormedUid cu" and pu: "map_of prev uid = Some pu"
  shows "cpuCycles (deltaUid prev uid cu) \<le> cpuCycles cu"
    and "UidProcStats.totalTasksCount (deltaUid prev uid cu) = UidProcStats.totalTasksCount cu"
    and "UidProcStats.ioBlockedTasksCount (deltaUid prev uid cu) =
           UidProcStats.ioBlockedTasksCount cu"
    and "totalRssKb (deltaUid prev uid cu) = totalRssKb cu"
    and "totalPssKb (deltaUid prev uid cu) = totalPssKb cu"
    and "cpuTimesNonNegative pu \<Longrightarrow>
         sum_list (map (\<lambda>entry. unat (ProcessStats.cpuTimeMillis (snd entry)))
                    (processStatsByPid cu)) < 2 ^ 63 \<Longrightarrow>
         0 \<le>s UidProcStats.cpuTimeMillis (deltaUid prev uid cu) \<and>
         UidProcStats.cpuTimeMillis (deltaUid prev uid cu) \<le>s UidProcStats.cpuTimeMillis cu \<and>
         UidProcStats.cpuTimeMillis (deltaUid prev uid cu) \<le> UidProcStats.cpuTimeMillis cu"
    and "sum_list (map (\<lambda>entry. unat (ProcessStats.totalMajorFaults (snd entry)))
                    (processStatsByPid cu)) < 2 ^ 64 \<Longrightarrow>
         UidProcStats.totalMajorFaults (deltaUid prev uid cu) \<le> UidProcStats.totalMajorFaults cu"
proof -
  let ?d = "\<lambda>entry. deltaProcess (processStatsByPid pu) (fst entry) (snd entry)"
  from wf have procs: "\<And>entry. entry \<in> set (processStatsByPid cu) \<Longrightarrow>
      wellFormedProcess (snd entry)"
    by (simp add: wellFormedUid_def list_all_iff)
  then have le: "\<And>entry. entry \<in> set (processStatsByPid cu) \<Longrightarrow>
      processCountersLe (?d entry) (snd entry)"
    by (simp add: processCountersLe_deltaProcess)
  from wf have cyc: "cpuCycles cu =
      saturatedSum (map (\<lambda>entry. totalCpuCycles (snd entry)) (processStatsByPid cu))"
    and cpu: "UidProcStats.cpuTimeMillis cu =
      sum_list (map (\<lambda>entry. ProcessStats.cpuTimeMillis (snd entry)) (processStatsByPid cu))"
    and mf: "UidProcStats.totalMajorFaults cu =
      sum_list (map (\<lambda>entry. ProcessStats.totalMajorFaults (snd entry)) (processStatsByPid cu))"
    by (simp_all add: wellFormedUid_def)
  have "sum_list (map (\<lambda>entry. unat (totalCpuCycles (?d entry))) (processStatsByPid cu)) \<le>
        sum_list (map (\<lambda>entry. unat (totalCpuCycles (snd entry))) (processStatsByPid cu))"
    using le by (intro sum_list_unat_mono) (simp add: processCountersLe_def)
  then have "unat (cpuCycles (deltaUid prev uid cu)) \<le> unat (cpuCycles cu)"
    by (simp add: deltaUid_present [OF pu] fold_processStep_cycles cyc unat_saturatedSum
        comp_def min_le_iff_disj)
  then show "cpuCycles (deltaUid prev uid cu) \<le> cpuCycles cu"
    by (simp add: word_le_nat_alt)
  show "UidProcStats.totalTasksCount (deltaUid prev uid cu) = UidProcStats.totalTasksCount cu"
    and "UidProcStats.ioBlockedTasksCount (deltaUid prev uid cu) =
           UidProcStats.ioBlockedTasksCount cu"
    and "totalRssKb (deltaUid prev uid cu) = totalRssKb cu"
    and "totalPssKb (deltaUid prev uid cu) = totalPssKb cu"
    by (simp_all add: deltaUid_present [OF pu] fold_processStep_sums)
  show "0 \<le>s UidProcStats.cpuTimeMillis (deltaUid prev uid cu) \<and>
        UidProcStats.cpuTimeMillis (deltaUid prev uid cu) \<le>s UidProcStats.cpuTimeMillis cu \<and>
        UidProcStats.cpuTimeMillis (deltaUid prev uid cu) \<le> UidProcStats.cpuTimeMillis cu"
    if nonneg: "cpuTimesNonNegative pu"
      and fits: "sum_list (map (\<lambda>entry. unat (ProcessStats.cpuTimeMillis (snd entry)))
                    (processStatsByPid cu)) < 2 ^ 63"
  proof -
    let ?f = "\<lambda>entry. ProcessStats.cpuTimeMillis (?d entry)"
    let ?g = "\<lambda>entry :: pid_t \<times> ProcessStats. ProcessStats.cpuTimeMillis (snd entry)"
    from fits have fits64: "sum_list (map (\<lambda>entry. unat (?g entry)) (processStatsByPid cu)) < 2 ^ 64"
      by simp
    have prevnn: "0 \<le>s ProcessStats.cpuTimeMillis pp"
      if "map_of (processStatsByPid pu) pid = Some pp" for pid pp
    proof -
      from that have "(pid, pp) \<in> set (processStatsByPid pu)" by (rule map_of_SomeD)
      with nonneg show ?thesis by (auto simp: cpuTimesNonNegative_def list_all_iff)
    qed
    have curnn: "0 \<le>s ?g entry" if "entry \<in> set (processStatsByPid cu)" for entry
    proof -
      from that have "unat (?g entry) \<in> set (map (\<lambda>entry. unat (?g entry)) (processStatsByPid cu))"
        by simp
      then have "unat (?g entry) \<le> sum_list (map (\<lambda>entry. unat (?g entry)) (processStatsByPid cu))"
        by (intro member_le_sum_list) simp_all
      with fits show ?thesis by (simp add: sle_zero_iff)
    qed
    have each: "?f entry \<le> ?g entry" if "entry \<in> set (processStatsByPid cu)" for entry
      using prevnn curnn [OF that] by (intro deltaProcess_cpuTime(2))
    have sums: "sum_list (map ?f (processStatsByPid cu)) \<le> sum_list (map ?g (processStatsByPid cu))"
      using each fits64 by (rule sum_list_word_le)
    have "unat (sum_list (map ?g (processStatsByPid cu))) < 2 ^ 63"
      using fits by (simp add: unat_sum_list_fits [OF fits64])
    then have gnn: "0 \<le>s sum_list (map ?g (processStatsByPid cu))"
      by (simp add: sle_zero_iff)
    from sums have "unat (sum_list (map ?f (processStatsByPid cu))) \<le>
                    unat (sum_list (map ?g (processStatsByPid cu)))"
      by (simp add: word_le_nat_alt)
    with gnn have fnn: "0 \<le>s sum_list (map ?f (processStatsByPid cu))"
      by (simp add: sle_zero_iff)
    from sums have "sum_list (map ?f (processStatsByPid cu)) \<le>s
                    sum_list (map ?g (processStatsByPid cu))"
      using sle_iff_le [OF fnn gnn] by simp
    with fnn sums show ?thesis
      by (simp add: deltaUid_present [OF pu] fold_processStep_sums cpu)
  qed
  show "UidProcStats.totalMajorFaults (deltaUid prev uid cu) \<le> UidProcStats.totalMajorFaults cu"
    if "sum_list (map (\<lambda>entry. unat (ProcessStats.totalMajorFaults (snd entry)))
                    (processStatsByPid cu)) < 2 ^ 64"
  proof -
    have "sum_list (map (\<lambda>entry. ProcessStats.totalMajorFaults (?d entry)) (processStatsByPid cu)) \<le>
          sum_list (map (\<lambda>entry. ProcessStats.totalMajorFaults (snd entry)) (processStatsByPid cu))"
      using le that by (intro sum_list_word_le) (simp_all add: processCountersLe_def)
    then show ?thesis
      by (simp add: deltaUid_present [OF pu] fold_processStep_sums mf)
  qed
qed
text \<open>
  C2. For a process of the current snapshot whose PID is not in the previous statistics
  of its UID with the same start time (the PID is new, or it is there with another
  start time), the delta statistics are the current statistics as they are. Where the
  PID is there with the same start time, the CPU time and the major faults of the delta
  are the differences, or the current values where the previous ones are larger; the
  CPU times are compared as the signed numbers they are.
\<close>

theorem pid_reuse_gives_current_values:
  assumes cur: "distinct (map fst cur)" and cu: "map_of cur uid = Some cu"
    and procs: "distinct (map fst (processStatsByPid cu))"
    and cp: "map_of (processStatsByPid cu) pid = Some cp"
  shows "\<exists>du. map_of (computeDelta prev cur) uid = Some du \<and>
           ((\<forall>pu pp. map_of prev uid = Some pu \<and> map_of (processStatsByPid pu) pid = Some pp \<longrightarrow>
                ProcessStats.startTimeMillis pp \<noteq> ProcessStats.startTimeMillis cp) \<longrightarrow>
              map_of (processStatsByPid du) pid = Some cp) \<and>
           (\<forall>pu pp. map_of prev uid = Some pu \<and> map_of (processStatsByPid pu) pid = Some pp \<and>
                ProcessStats.startTimeMillis pp = ProcessStats.startTimeMillis cp \<longrightarrow>
              (\<exists>dp. map_of (processStatsByPid du) pid = Some dp \<and>
                 ProcessStats.cpuTimeMillis dp =
                   (if ProcessStats.cpuTimeMillis pp \<le>s ProcessStats.cpuTimeMillis cp
                    then ProcessStats.cpuTimeMillis cp - ProcessStats.cpuTimeMillis pp
                    else ProcessStats.cpuTimeMillis cp) \<and>
                 ProcessStats.totalMajorFaults dp =
                   (if ProcessStats.totalMajorFaults pp \<le> ProcessStats.totalMajorFaults cp
                    then ProcessStats.totalMajorFaults cp - ProcessStats.totalMajorFaults pp
                    else ProcessStats.totalMajorFaults cp)))"
proof -
  have du: "map_of (computeDelta prev cur) uid = Some (deltaUid prev uid cu)"
    by (simp add: map_of_computeDelta [OF cur] cu)
  show ?thesis
  proof (cases "map_of prev uid")
    case None
    then have "deltaUid prev uid cu = cu" by (rule deltaUid_absent)
    with du cp None show ?thesis by simp
  next
    case (Some pu)
    have dp: "map_of (processStatsByPid (deltaUid prev uid cu)) pid =
                Some (deltaProcess (processStatsByPid pu) pid cp)"
      by (simp add: map_of_deltaUid_procs [OF procs Some] cp)
    have reuse: "deltaProcess (processStatsByPid pu) pid cp = cp"
      if "\<forall>pu pp. map_of prev uid = Some pu \<and> map_of (processStatsByPid pu) pid = Some pp \<longrightarrow>
                ProcessStats.startTimeMillis pp \<noteq> ProcessStats.startTimeMillis cp"
      using that Some by (intro deltaProcess_unmatched) simp
    have same: "ProcessStats.cpuTimeMillis (deltaProcess (processStatsByPid pu) pid cp) =
                   (if ProcessStats.cpuTimeMillis pp \<le>s ProcessStats.cpuTimeMillis cp
                    then ProcessStats.cpuTimeMillis cp - ProcessStats.cpuTimeMillis pp
                    else ProcessStats.cpuTimeMillis cp) \<and>
                ProcessStats.totalMajorFaults (deltaProcess (processStatsByPid pu) pid cp) =
                   (if ProcessStats.totalMajorFaults pp \<le> ProcessStats.totalMajorFaults cp
                    then ProcessStats.totalMajorFaults cp - ProcessStats.totalMajorFaults pp
                    else ProcessStats.totalMajorFaults cp)"
      if "map_of (processStatsByPid pu) pid = Some pp"
        and "ProcessStats.startTimeMillis pp = ProcessStats.startTimeMillis cp" for pp
      using deltaProcess_matched(1,2) [OF that] by simp
    from du dp reuse same Some show ?thesis by auto
  qed
qed

theorem pid_reuse_gives_current_values_witness:
  "distinct (map fst snapshotNow) \<and> map_of snapshotNow 1000 = Some uidNow \<and>
   distinct (map fst (processStatsByPid uidNow)) \<and>
   map_of (processStatsByPid uidNow) 2000 = Some (threadedProcess 9000 50 2 []) \<and>
   map_of (processStatsByPid uidBefore) 2000 = Some (threadedProcess 5000 300 7 []) \<and>
   (\<exists>du. map_of (computeDelta snapshotBefore snapshotNow) 1000 = Some du \<and>
         map_of (processStatsByPid du) 2000 = Some (threadedProcess 9000 50 2 []) \<and>
         (\<exists>dp. map_of (processStatsByPid du) 1000 = Some dp \<and>
               ProcessStats.cpuTimeMillis dp = 150 \<and> ProcessStats.totalMajorFaults dp = 3))"
proof -
  have d: "distinct (map fst snapshotNow)" by code_simp
  have cu: "map_of snapshotNow 1000 = Some uidNow" by (simp add: snapshotNow_def)
  have dp: "distinct (map fst (processStatsByPid uidNow))" by code_simp
  have p2: "map_of (processStatsByPid uidNow) 2000 = Some (threadedProcess 9000 50 2 [])"
    by code_simp
  have p1: "map_of (processStatsByPid uidNow) 1000 =
              Some (threadedProcess 5000 450 10 [(1000, 150), (1001, 250)])"
    by code_simp
  have pu: "map_of snapshotBefore 1000 = Some uidBefore" by (simp add: snapshotBefore_def)
  have b2: "map_of (processStatsByPid uidBefore) 2000 = Some (threadedProcess 5000 300 7 [])"
    by code_simp
  have b1: "map_of (processStatsByPid uidBefore) 1000 =
              Some (threadedProcess 5000 300 7 [(1000, 100), (1001, 200), (1002, 300)])"
    by code_simp
  from pid_reuse_gives_current_values [OF d cu dp p2, of snapshotBefore]
  obtain du where du: "map_of (computeDelta snapshotBefore snapshotNow) 1000 = Some du"
    and reuse: "(\<forall>pu pp. map_of snapshotBefore 1000 = Some pu \<and>
                   map_of (processStatsByPid pu) 2000 = Some pp \<longrightarrow>
                ProcessStats.startTimeMillis pp \<noteq>
                ProcessStats.startTimeMillis (threadedProcess 9000 50 2 [])) \<longrightarrow>
              map_of (processStatsByPid du) 2000 = Some (threadedProcess 9000 50 2 [])"
    by blast
  have "\<forall>pu pp. map_of snapshotBefore 1000 = Some pu \<and>
                   map_of (processStatsByPid pu) 2000 = Some pp \<longrightarrow>
                ProcessStats.startTimeMillis pp \<noteq>
                ProcessStats.startTimeMillis (threadedProcess 9000 50 2 [])"
    using pu b2 by (auto simp: threadedProcess_def)
  with reuse have r2: "map_of (processStatsByPid du) 2000 = Some (threadedProcess 9000 50 2 [])"
    by blast
  from pid_reuse_gives_current_values [OF d cu dp p1, of snapshotBefore] du
  have "\<forall>pu pp. map_of snapshotBefore 1000 = Some pu \<and>
           map_of (processStatsByPid pu) 1000 = Some pp \<and>
           ProcessStats.startTimeMillis pp =
           ProcessStats.startTimeMillis (threadedProcess 5000 450 10 [(1000, 150), (1001, 250)]) \<longrightarrow>
              (\<exists>dp. map_of (processStatsByPid du) 1000 = Some dp \<and>
                 ProcessStats.cpuTimeMillis dp =
                   (if ProcessStats.cpuTimeMillis pp \<le>s
                       ProcessStats.cpuTimeMillis (threadedProcess 5000 450 10 [(1000, 150), (1001, 250)])
                    then ProcessStats.cpuTimeMillis (threadedProcess 5000 450 10 [(1000, 150), (1001, 250)]) -
                         ProcessStats.cpuTimeMillis pp
                    else ProcessStats.cpuTimeMillis (threadedProcess 5000 450 10 [(1000, 150), (1001, 250)])) \<and>
                 ProcessStats.totalMajorFaults dp =
                   (if ProcessStats.totalMajorFaults pp \<le>
                       ProcessStats.totalMajorFaults (threadedProcess 5000 450 10 [(1000, 150), (1001, 250)])
                    then ProcessStats.totalMajorFaults (threadedProcess 5000 450 10 [(1000, 150), (1001, 250)]) -
                         ProcessStats.totalMajorFaults pp
                    else ProcessStats.totalMajorFaults (threadedProcess 5000 450 10 [(1000, 150), (1001, 250)])))"
    by auto
  from this [rule_format, of uidBefore "threadedProcess 5000 300 7 [(1000, 100), (1001, 200), (1002, 300)]"]
    pu b1
  have r1: "\<exists>dp. map_of (processStatsByPid du) 1000 = Some dp \<and>
               ProcessStats.cpuTimeMillis dp = 150 \<and> ProcessStats.totalMajorFaults dp = 3"
    by (simp add: threadedProcess_def)
  from d cu dp p2 b2 du r2 r1 show ?thesis by blast
qed

text \<open>
  Where a current counter is below the previous one of the same process, the delta has
  the current value.
\<close>

lemma deltaProcess_reset:
  assumes pp: "map_of prevProcs pid = Some pp"
    and start: "ProcessStats.startTimeMillis pp = ProcessStats.startTimeMillis cp"
    and dist: "distinct (map fst (cpuCyclesByTid cp))"
  shows "ProcessStats.cpuTimeMillis cp <s ProcessStats.cpuTimeMillis pp \<Longrightarrow>
           ProcessStats.cpuTimeMillis (deltaProcess prevProcs pid cp) =
           ProcessStats.cpuTimeMillis cp"
    and "ProcessStats.totalMajorFaults cp < ProcessStats.totalMajorFaults pp \<Longrightarrow>
           ProcessStats.totalMajorFaults (deltaProcess prevProcs pid cp) =
           ProcessStats.totalMajorFaults cp"
    and "map_of (cpuCyclesByTid cp) tid = Some c \<Longrightarrow>
         map_of (cpuCyclesByTid pp) tid = Some p \<Longrightarrow> c < p \<Longrightarrow>
           map_of (cpuCyclesByTid (deltaProcess prevProcs pid cp)) tid = Some c"
proof -
  note m = deltaProcess_matched [OF pp start]
  show "ProcessStats.cpuTimeMillis (deltaProcess prevProcs pid cp) =
          ProcessStats.cpuTimeMillis cp"
    if "ProcessStats.cpuTimeMillis cp <s ProcessStats.cpuTimeMillis pp"
    using that by (auto simp: m(1) dest: signed.leD)
  show "ProcessStats.totalMajorFaults (deltaProcess prevProcs pid cp) =
          ProcessStats.totalMajorFaults cp"
    if "ProcessStats.totalMajorFaults cp < ProcessStats.totalMajorFaults pp"
    using that by (auto simp: m(2) dest: leD)
  show "map_of (cpuCyclesByTid (deltaProcess prevProcs pid cp)) tid = Some c"
    if "map_of (cpuCyclesByTid cp) tid = Some c" "map_of (cpuCyclesByTid pp) tid = Some p" "c < p"
    using that by (simp add: m(3) map_of_fold_update [OF dist] deltaThreadCpuCycles_reset)
qed

lemma cpuTimesNonNegativeD:
  assumes "cpuTimesNonNegative pu" and "map_of (processStatsByPid pu) pid = Some pp"
  shows "0 \<le>s ProcessStats.cpuTimeMillis pp"
proof -
  from assms(2) have "(pid, pp) \<in> set (processStatsByPid pu)" by (rule map_of_SomeD)
  with assms(1) show ?thesis by (auto simp: cpuTimesNonNegative_def list_all_iff)
qed

text \<open>
  C1, as the program has it. For a well-formed current snapshot and any previous one,
  every UID of the current snapshot has a delta; its task counts and memory sizes are
  the current ones, its cycles are at most the current cycles, and every process of the
  delta is a process of the current snapshot with every unsigned counter, also the
  cycles of every thread, at most the current one. The major faults of the UID are a sum
  that wraps: they are at most the current aggregate when the current values of the
  processes of the UID add up to less than \<open>2^64\<close>. The CPU time is a signed number. The
  CPU time of a process of the delta is not negative and at most the current one when
  the current one is not negative and no process of the UID had a negative CPU time in
  the previous snapshot; the CPU time of the UID is so when, in addition, the current
  CPU times of the processes of the UID add up to less than \<open>2^63\<close> (none of them is
  negative then, and the sum does not leave the range of \<^verbatim>\<open>int64_t\<close>). Where a counter
  of a process with the same start time is below the previous one, the delta has the
  current value.
\<close>

theorem delta_counters_bounded:
  assumes wf: "wellFormed cur" and cu: "map_of cur uid = Some cu"
  shows "\<exists>du. map_of (computeDelta prev cur) uid = Some du \<and>
           cpuCycles du \<le> cpuCycles cu \<and>
           UidProcStats.totalTasksCount du = UidProcStats.totalTasksCount cu \<and>
           UidProcStats.ioBlockedTasksCount du = UidProcStats.ioBlockedTasksCount cu \<and>
           totalRssKb du = totalRssKb cu \<and> totalPssKb du = totalPssKb cu \<and>
           (sum_list (map (\<lambda>entry. unat (ProcessStats.totalMajorFaults (snd entry)))
                        (processStatsByPid cu)) < 2 ^ 64 \<longrightarrow>
              UidProcStats.totalMajorFaults du \<le> UidProcStats.totalMajorFaults cu) \<and>
           ((\<forall>pu. map_of prev uid = Some pu \<longrightarrow> cpuTimesNonNegative pu) \<and>
            sum_list (map (\<lambda>entry. unat (ProcessStats.cpuTimeMillis (snd entry)))
                        (processStatsByPid cu)) < 2 ^ 63 \<longrightarrow>
              0 \<le>s UidProcStats.cpuTimeMillis du \<and>
              UidProcStats.cpuTimeMillis du \<le>s UidProcStats.cpuTimeMillis cu \<and>
              UidProcStats.cpuTimeMillis du \<le> UidProcStats.cpuTimeMillis cu) \<and>
           (\<forall>pid dp. map_of (processStatsByPid du) pid = Some dp \<longrightarrow>
              (\<exists>cp. map_of (processStatsByPid cu) pid = Some cp \<and> processCountersLe dp cp \<and>
                 ((\<forall>pu. map_of prev uid = Some pu \<longrightarrow> cpuTimesNonNegative pu) \<and>
                  0 \<le>s ProcessStats.cpuTimeMillis cp \<longrightarrow> cpuTimeWithin dp cp))) \<and>
           (\<forall>pid cp pu pp.
              map_of (processStatsByPid cu) pid = Some cp \<and> map_of prev uid = Some pu \<and>
              map_of (processStatsByPid pu) pid = Some pp \<and>
              ProcessStats.startTimeMillis pp = ProcessStats.startTimeMillis cp \<longrightarrow>
              (\<exists>dp. map_of (processStatsByPid du) pid = Some dp \<and>
                 (ProcessStats.cpuTimeMillis cp <s ProcessStats.cpuTimeMillis pp \<longrightarrow>
                    ProcessStats.cpuTimeMillis dp = ProcessStats.cpuTimeMillis cp) \<and>
                 (ProcessStats.totalMajorFaults cp < ProcessStats.totalMajorFaults pp \<longrightarrow>
                    ProcessStats.totalMajorFaults dp = ProcessStats.totalMajorFaults cp) \<and>
                 (\<forall>tid c p. map_of (cpuCyclesByTid cp) tid = Some c \<and>
                    map_of (cpuCyclesByTid pp) tid = Some p \<and> c < p \<longrightarrow>
                    map_of (cpuCyclesByTid dp) tid = Some c)))"
proof -
  from wf have dcur: "distinct (map fst cur)" by (simp add: wellFormed_def)
  from cu have "(uid, cu) \<in> set cur" by (rule map_of_SomeD)
  with wf have wfu: "wellFormedUid cu" by (auto simp: wellFormed_def list_all_iff)
  then have dprocs: "distinct (map fst (processStatsByPid cu))"
    by (simp add: wellFormedUid_def)
  have wfp: "wellFormedProcess cp" if "map_of (processStatsByPid cu) pid = Some cp" for pid cp
  proof -
    from that have "(pid, cp) \<in> set (processStatsByPid cu)" by (rule map_of_SomeD)
    with wfu show ?thesis by (auto simp: wellFormedUid_def list_all_iff)
  qed
  have du: "map_of (computeDelta prev cur) uid = Some (deltaUid prev uid cu)"
    by (simp add: map_of_computeDelta [OF dcur] cu)
  show ?thesis
  proof (cases "map_of prev uid")
    case None
    then have same: "deltaUid prev uid cu = cu" by (rule deltaUid_absent)
    have uidcpu: "0 \<le>s UidProcStats.cpuTimeMillis cu"
      if "sum_list (map (\<lambda>entry. unat (ProcessStats.cpuTimeMillis (snd entry)))
                      (processStatsByPid cu)) < 2 ^ 63"
      using wfu that by (rule wellFormedUid_cpuTime)
    show ?thesis
    proof (intro exI [of _ cu] conjI)
      show "map_of (computeDelta prev cur) uid = Some cu" using du by (simp add: same)
      show "(\<forall>pu. map_of prev uid = Some pu \<longrightarrow> cpuTimesNonNegative pu) \<and>
            sum_list (map (\<lambda>entry. unat (ProcessStats.cpuTimeMillis (snd entry)))
                        (processStatsByPid cu)) < 2 ^ 63 \<longrightarrow>
              0 \<le>s UidProcStats.cpuTimeMillis cu \<and>
              UidProcStats.cpuTimeMillis cu \<le>s UidProcStats.cpuTimeMillis cu \<and>
              UidProcStats.cpuTimeMillis cu \<le> UidProcStats.cpuTimeMillis cu"
        using uidcpu by simp
      show "\<forall>pid dp. map_of (processStatsByPid cu) pid = Some dp \<longrightarrow>
              (\<exists>cp. map_of (processStatsByPid cu) pid = Some cp \<and> processCountersLe dp cp \<and>
                 ((\<forall>pu. map_of prev uid = Some pu \<longrightarrow> cpuTimesNonNegative pu) \<and>
                  0 \<le>s ProcessStats.cpuTimeMillis cp \<longrightarrow> cpuTimeWithin dp cp))"
        by (simp add: processCountersLe_refl cpuTimeWithin_def)
      show "\<forall>pid cp pu pp.
              map_of (processStatsByPid cu) pid = Some cp \<and> map_of prev uid = Some pu \<and>
              map_of (processStatsByPid pu) pid = Some pp \<and>
              ProcessStats.startTimeMillis pp = ProcessStats.startTimeMillis cp \<longrightarrow>
              (\<exists>dp. map_of (processStatsByPid cu) pid = Some dp \<and>
                 (ProcessStats.cpuTimeMillis cp <s ProcessStats.cpuTimeMillis pp \<longrightarrow>
                    ProcessStats.cpuTimeMillis dp = ProcessStats.cpuTimeMillis cp) \<and>
                 (ProcessStats.totalMajorFaults cp < ProcessStats.totalMajorFaults pp \<longrightarrow>
                    ProcessStats.totalMajorFaults dp = ProcessStats.totalMajorFaults cp) \<and>
                 (\<forall>tid c p. map_of (cpuCyclesByTid cp) tid = Some c \<and>
                    map_of (cpuCyclesByTid pp) tid = Some p \<and> c < p \<longrightarrow>
                    map_of (cpuCyclesByTid dp) tid = Some c))"
        using None by simp
    qed simp_all
  next
    case (Some pu)
    note b = deltaUid_bounded [OF wfu Some]
    have procs: "map_of (processStatsByPid (deltaUid prev uid cu)) pid =
        map_option (deltaProcess (processStatsByPid pu) pid) (map_of (processStatsByPid cu) pid)"
      for pid
      by (rule map_of_deltaUid_procs [OF dprocs Some])
    have le: "\<exists>cp. map_of (processStatsByPid cu) pid = Some cp \<and> processCountersLe dp cp \<and>
                 ((\<forall>pu. map_of prev uid = Some pu \<longrightarrow> cpuTimesNonNegative pu) \<and>
                  0 \<le>s ProcessStats.cpuTimeMillis cp \<longrightarrow> cpuTimeWithin dp cp)"
      if dp: "map_of (processStatsByPid (deltaUid prev uid cu)) pid = Some dp" for pid dp
    proof -
      from dp obtain cp where cp: "map_of (processStatsByPid cu) pid = Some cp"
        and dp': "dp = deltaProcess (processStatsByPid pu) pid cp"
        by (auto simp: procs)
      have counters: "processCountersLe dp cp"
        unfolding dp' using wfp [OF cp] by (rule processCountersLe_deltaProcess)
      have cpu: "cpuTimeWithin dp cp"
        if nonneg: "\<forall>pu. map_of prev uid = Some pu \<longrightarrow> cpuTimesNonNegative pu"
          and cur: "0 \<le>s ProcessStats.cpuTimeMillis cp"
      proof -
        from nonneg Some have "cpuTimesNonNegative pu" by simp
        then have "\<And>pp. map_of (processStatsByPid pu) pid = Some pp \<Longrightarrow>
                     0 \<le>s ProcessStats.cpuTimeMillis pp"
          by (rule cpuTimesNonNegativeD)
        then show ?thesis
          unfolding dp' using cur by (intro deltaProcess_cpuTime(1))
      qed
      from cp counters cpu show ?thesis by blast
    qed
    have reset: "\<exists>dp. map_of (processStatsByPid (deltaUid prev uid cu)) pid = Some dp \<and>
                 (ProcessStats.cpuTimeMillis cp <s ProcessStats.cpuTimeMillis pp \<longrightarrow>
                    ProcessStats.cpuTimeMillis dp = ProcessStats.cpuTimeMillis cp) \<and>
                 (ProcessStats.totalMajorFaults cp < ProcessStats.totalMajorFaults pp \<longrightarrow>
                    ProcessStats.totalMajorFaults dp = ProcessStats.totalMajorFaults cp) \<and>
                 (\<forall>tid c p. map_of (cpuCyclesByTid cp) tid = Some c \<and>
                    map_of (cpuCyclesByTid pp) tid = Some p \<and> c < p \<longrightarrow>
                    map_of (cpuCyclesByTid dp) tid = Some c)"
      if cp: "map_of (processStatsByPid cu) pid = Some cp"
        and pp: "map_of (processStatsByPid pu) pid = Some pp"
        and start: "ProcessStats.startTimeMillis pp = ProcessStats.startTimeMillis cp"
      for pid cp pp
    proof -
      from wfp [OF cp] have dist: "distinct (map fst (cpuCyclesByTid cp))"
        by (simp add: wellFormedProcess_def)
      show ?thesis
        using deltaProcess_reset [OF pp start dist] by (simp add: procs cp) blast
    qed
    show ?thesis
    proof (intro exI [of _ "deltaUid prev uid cu"] conjI)
      show "map_of (computeDelta prev cur) uid = Some (deltaUid prev uid cu)" by (rule du)
      show "cpuCycles (deltaUid prev uid cu) \<le> cpuCycles cu" by (rule b(1))
      show "UidProcStats.totalTasksCount (deltaUid prev uid cu) = UidProcStats.totalTasksCount cu"
        by (rule b(2))
      show "UidProcStats.ioBlockedTasksCount (deltaUid prev uid cu) =
              UidProcStats.ioBlockedTasksCount cu" by (rule b(3))
      show "totalRssKb (deltaUid prev uid cu) = totalRssKb cu" by (rule b(4))
      show "totalPssKb (deltaUid prev uid cu) = totalPssKb cu" by (rule b(5))
      show "sum_list (map (\<lambda>entry. unat (ProcessStats.totalMajorFaults (snd entry)))
                        (processStatsByPid cu)) < 2 ^ 64 \<longrightarrow>
              UidProcStats.totalMajorFaults (deltaUid prev uid cu) \<le>
              UidProcStats.totalMajorFaults cu"
        using b(7) by blast
      show "(\<forall>pu. map_of prev uid = Some pu \<longrightarrow> cpuTimesNonNegative pu) \<and>
            sum_list (map (\<lambda>entry. unat (ProcessStats.cpuTimeMillis (snd entry)))
                        (processStatsByPid cu)) < 2 ^ 63 \<longrightarrow>
              0 \<le>s UidProcStats.cpuTimeMillis (deltaUid prev uid cu) \<and>
              UidProcStats.cpuTimeMillis (deltaUid prev uid cu) \<le>s
                UidProcStats.cpuTimeMillis cu \<and>
              UidProcStats.cpuTimeMillis (deltaUid prev uid cu) \<le> UidProcStats.cpuTimeMillis cu"
        using b(6) Some by blast
      show "\<forall>pid dp. map_of (processStatsByPid (deltaUid prev uid cu)) pid = Some dp \<longrightarrow>
              (\<exists>cp. map_of (processStatsByPid cu) pid = Some cp \<and> processCountersLe dp cp \<and>
                 ((\<forall>pu. map_of prev uid = Some pu \<longrightarrow> cpuTimesNonNegative pu) \<and>
                  0 \<le>s ProcessStats.cpuTimeMillis cp \<longrightarrow> cpuTimeWithin dp cp))"
        using le by blast
      show "\<forall>pid cp pu pp.
              map_of (processStatsByPid cu) pid = Some cp \<and> map_of prev uid = Some pu \<and>
              map_of (processStatsByPid pu) pid = Some pp \<and>
              ProcessStats.startTimeMillis pp = ProcessStats.startTimeMillis cp \<longrightarrow>
              (\<exists>dp. map_of (processStatsByPid (deltaUid prev uid cu)) pid = Some dp \<and>
                 (ProcessStats.cpuTimeMillis cp <s ProcessStats.cpuTimeMillis pp \<longrightarrow>
                    ProcessStats.cpuTimeMillis dp = ProcessStats.cpuTimeMillis cp) \<and>
                 (ProcessStats.totalMajorFaults cp < ProcessStats.totalMajorFaults pp \<longrightarrow>
                    ProcessStats.totalMajorFaults dp = ProcessStats.totalMajorFaults cp) \<and>
                 (\<forall>tid c p. map_of (cpuCyclesByTid cp) tid = Some c \<and>
                    map_of (cpuCyclesByTid pp) tid = Some p \<and> c < p \<longrightarrow>
                    map_of (cpuCyclesByTid dp) tid = Some c))"
        using reset Some by auto
    qed
  qed
qed

theorem delta_counters_bounded_witness:
  "wellFormed snapshotNow \<and> map_of snapshotNow 1000 = Some uidNow \<and>
   cpuTimesNonNegative uidBefore \<and>
   sum_list (map (\<lambda>entry. unat (ProcessStats.cpuTimeMillis (snd entry)))
               (processStatsByPid uidNow)) < 2 ^ 63 \<and>
   sum_list (map (\<lambda>entry. unat (ProcessStats.totalMajorFaults (snd entry)))
               (processStatsByPid uidNow)) < 2 ^ 64 \<and>
   map_of (processStatsByPid uidNow) 3000 = Some (threadedProcess 5000 100 5 [(3000, 400)]) \<and>
   map_of snapshotBefore 1000 = Some uidBefore \<and>
   map_of (processStatsByPid uidBefore) 3000 = Some (threadedProcess 5000 300 7 [(3000, 900)]) \<and>
   (\<exists>du. map_of (computeDelta snapshotBefore snapshotNow) 1000 = Some du \<and>
         cpuCycles du \<le> cpuCycles uidNow \<and>
         0 \<le>s UidProcStats.cpuTimeMillis du \<and>
         UidProcStats.cpuTimeMillis du \<le>s UidProcStats.cpuTimeMillis uidNow \<and>
         UidProcStats.totalMajorFaults du \<le> UidProcStats.totalMajorFaults uidNow \<and>
         (\<exists>dp. map_of (processStatsByPid du) 3000 = Some dp \<and>
               processCountersLe dp (threadedProcess 5000 100 5 [(3000, 400)]) \<and>
               cpuTimeWithin dp (threadedProcess 5000 100 5 [(3000, 400)]) \<and>
               ProcessStats.cpuTimeMillis dp = 100 \<and>
               ProcessStats.totalMajorFaults dp = 5 \<and>
               map_of (cpuCyclesByTid dp) 3000 = Some 400))"
proof -
  let ?cp = "threadedProcess 5000 100 5 [(3000, 400)]"
  let ?pp = "threadedProcess 5000 300 7 [(3000, 900)]"
  have wf: "wellFormed snapshotNow" by code_simp
  have cu: "map_of snapshotNow 1000 = Some uidNow" by (simp add: snapshotNow_def)
  have cpus: "map (\<lambda>entry. ProcessStats.cpuTimeMillis (snd entry)) (processStatsByPid uidNow) =
                [450, 50, 100]"
    by code_simp
  have faults: "map (\<lambda>entry. ProcessStats.totalMajorFaults (snd entry)) (processStatsByPid uidNow) =
                [10, 2, 5]"
    by code_simp
  have "sum_list (map (\<lambda>entry. unat (ProcessStats.cpuTimeMillis (snd entry)))
               (processStatsByPid uidNow)) =
        sum_list (map unat (map (\<lambda>entry. ProcessStats.cpuTimeMillis (snd entry))
               (processStatsByPid uidNow)))"
    by (simp add: comp_def)
  then have s1: "sum_list (map (\<lambda>entry. unat (ProcessStats.cpuTimeMillis (snd entry)))
               (processStatsByPid uidNow)) < 2 ^ 63"
    by (simp add: cpus)
  have "sum_list (map (\<lambda>entry. unat (ProcessStats.totalMajorFaults (snd entry)))
               (processStatsByPid uidNow)) =
        sum_list (map unat (map (\<lambda>entry. ProcessStats.totalMajorFaults (snd entry))
               (processStatsByPid uidNow)))"
    by (simp add: comp_def)
  then have s2: "sum_list (map (\<lambda>entry. unat (ProcessStats.totalMajorFaults (snd entry)))
               (processStatsByPid uidNow)) < 2 ^ 64"
    by (simp add: faults)
  have cp: "map_of (processStatsByPid uidNow) 3000 = Some ?cp" by code_simp
  have pu: "map_of snapshotBefore 1000 = Some uidBefore" by (simp add: snapshotBefore_def)
  have pp: "map_of (processStatsByPid uidBefore) 3000 = Some ?pp" by code_simp
  have "map (\<lambda>entry. ProcessStats.cpuTimeMillis (snd entry)) (processStatsByPid uidBefore) =
          [300, 300, 300]"
    by code_simp
  then have "list_all (\<lambda>w. 0 \<le>s w)
               (map (\<lambda>entry. ProcessStats.cpuTimeMillis (snd entry)) (processStatsByPid uidBefore))"
    by (simp add: sle_zero_iff)
  then have before: "cpuTimesNonNegative uidBefore"
    by (simp add: cpuTimesNonNegative_def list_all_iff)
  with pu have nonneg: "\<forall>pu. map_of snapshotBefore 1000 = Some pu \<longrightarrow> cpuTimesNonNegative pu"
    by simp
  from delta_counters_bounded [OF wf cu, of snapshotBefore]
  obtain du where du: "map_of (computeDelta snapshotBefore snapshotNow) 1000 = Some du"
    and cyc: "cpuCycles du \<le> cpuCycles uidNow"
    and mf: "sum_list (map (\<lambda>entry. unat (ProcessStats.totalMajorFaults (snd entry)))
                        (processStatsByPid uidNow)) < 2 ^ 64 \<longrightarrow>
              UidProcStats.totalMajorFaults du \<le> UidProcStats.totalMajorFaults uidNow"
    and cpu: "(\<forall>pu. map_of snapshotBefore 1000 = Some pu \<longrightarrow> cpuTimesNonNegative pu) \<and>
            sum_list (map (\<lambda>entry. unat (ProcessStats.cpuTimeMillis (snd entry)))
                        (processStatsByPid uidNow)) < 2 ^ 63 \<longrightarrow>
              0 \<le>s UidProcStats.cpuTimeMillis du \<and>
              UidProcStats.cpuTimeMillis du \<le>s UidProcStats.cpuTimeMillis uidNow \<and>
              UidProcStats.cpuTimeMillis du \<le> UidProcStats.cpuTimeMillis uidNow"
    and le: "\<forall>pid dp. map_of (processStatsByPid du) pid = Some dp \<longrightarrow>
              (\<exists>cp. map_of (processStatsByPid uidNow) pid = Some cp \<and> processCountersLe dp cp \<and>
                 ((\<forall>pu. map_of snapshotBefore 1000 = Some pu \<longrightarrow> cpuTimesNonNegative pu) \<and>
                  0 \<le>s ProcessStats.cpuTimeMillis cp \<longrightarrow> cpuTimeWithin dp cp))"
    and reset: "\<forall>pid cp pu pp.
              map_of (processStatsByPid uidNow) pid = Some cp \<and>
              map_of snapshotBefore 1000 = Some pu \<and>
              map_of (processStatsByPid pu) pid = Some pp \<and>
              ProcessStats.startTimeMillis pp = ProcessStats.startTimeMillis cp \<longrightarrow>
              (\<exists>dp. map_of (processStatsByPid du) pid = Some dp \<and>
                 (ProcessStats.cpuTimeMillis cp <s ProcessStats.cpuTimeMillis pp \<longrightarrow>
                    ProcessStats.cpuTimeMillis dp = ProcessStats.cpuTimeMillis cp) \<and>
                 (ProcessStats.totalMajorFaults cp < ProcessStats.totalMajorFaults pp \<longrightarrow>
                    ProcessStats.totalMajorFaults dp = ProcessStats.totalMajorFaults cp) \<and>
                 (\<forall>tid c p. map_of (cpuCyclesByTid cp) tid = Some c \<and>
                    map_of (cpuCyclesByTid pp) tid = Some p \<and> c < p \<longrightarrow>
                    map_of (cpuCyclesByTid dp) tid = Some c))"
    by blast
  have start: "ProcessStats.startTimeMillis ?pp = ProcessStats.startTimeMillis ?cp"
    by (simp add: threadedProcess_def)
  from reset [rule_format, of 3000 ?cp uidBefore ?pp] cp pu pp start
  obtain dp where dp: "map_of (processStatsByPid du) 3000 = Some dp"
    and r1: "ProcessStats.cpuTimeMillis ?cp <s ProcessStats.cpuTimeMillis ?pp \<longrightarrow>
               ProcessStats.cpuTimeMillis dp = ProcessStats.cpuTimeMillis ?cp"
    and r2: "ProcessStats.totalMajorFaults ?cp < ProcessStats.totalMajorFaults ?pp \<longrightarrow>
               ProcessStats.totalMajorFaults dp = ProcessStats.totalMajorFaults ?cp"
    and r3: "\<forall>tid c p. map_of (cpuCyclesByTid ?cp) tid = Some c \<and>
                    map_of (cpuCyclesByTid ?pp) tid = Some p \<and> c < p \<longrightarrow>
                    map_of (cpuCyclesByTid dp) tid = Some c"
    by blast
  have "(100 :: i64) <s 300" by (simp add: word_sless_alt sint_i64)
  with r1 have v1: "ProcessStats.cpuTimeMillis dp = 100" by (simp add: threadedProcess_def)
  from r2 have v2: "ProcessStats.totalMajorFaults dp = 5" by (simp add: threadedProcess_def)
  from r3 [rule_format, of 3000 400 900] have v3: "map_of (cpuCyclesByTid dp) 3000 = Some 400"
    by (simp add: threadedProcess_def)
  have curnn: "0 \<le>s ProcessStats.cpuTimeMillis ?cp"
    by (simp add: threadedProcess_def sle_zero_iff)
  from le [rule_format, OF dp] obtain cp' where
    "map_of (processStatsByPid uidNow) 3000 = Some cp'" and "processCountersLe dp cp'"
    and "(\<forall>pu. map_of snapshotBefore 1000 = Some pu \<longrightarrow> cpuTimesNonNegative pu) \<and>
         0 \<le>s ProcessStats.cpuTimeMillis cp' \<longrightarrow> cpuTimeWithin dp cp'"
    by blast
  with cp nonneg curnn have v4: "processCountersLe dp ?cp" and v5: "cpuTimeWithin dp ?cp"
    by simp_all
  from cpu nonneg s1 have c0: "0 \<le>s UidProcStats.cpuTimeMillis du"
    and c1: "UidProcStats.cpuTimeMillis du \<le>s UidProcStats.cpuTimeMillis uidNow"
    by blast+
  from mf s2 have c2: "UidProcStats.totalMajorFaults du \<le> UidProcStats.totalMajorFaults uidNow"
    by blast
  from wf cu before s1 s2 cp pu pp du cyc c0 c1 c2 dp v1 v2 v3 v4 v5 show ?thesis by blast
qed

text \<open>
  C1, as the claim has it, fails for the aggregates of a UID. After a collection with
  three processes of 10 ms and 1 major fault each and a second one in which each has
  6148914691236517210 ms and 6148914691236517206 major faults, both snapshots
  well-formed and no CPU time of a process negative, the current CPU time and major
  faults of the UID are 14 ms and 2 (the sums have wrapped), and in the delta the UID
  has the CPU time 18446744073709551600, which is -16 ms as the signed number it is,
  and 18446744073709551615 major faults.
\<close>

theorem uid_delta_above_current:
  "wellFormed (latestStats (snd (collect collector0 (procfs3 ''1'' ''1'')))) \<and>
   fst (collect (snd (collect collector0 (procfs3 ''1'' ''1'')))
          (procfs3 ''614891469123651721'' ''6148914691236517206'')) = Inr () \<and>
   wellFormed
     (latestStats
        (snd (collect (snd (collect collector0 (procfs3 ''1'' ''1'')))
                (procfs3 ''614891469123651721'' ''6148914691236517206'')))) \<and>
   map (\<lambda>entry. (fst entry, UidProcStats.cpuTimeMillis (snd entry),
                   UidProcStats.totalMajorFaults (snd entry)))
     (latestStats
        (snd (collect (snd (collect collector0 (procfs3 ''1'' ''1'')))
                (procfs3 ''614891469123651721'' ''6148914691236517206'')))) =
     [(1000, 14, 2)] \<and>
   map (\<lambda>entry. (fst entry, UidProcStats.cpuTimeMillis (snd entry),
                   UidProcStats.totalMajorFaults (snd entry)))
     (deltaStats
        (snd (collect (snd (collect collector0 (procfs3 ''1'' ''1'')))
                (procfs3 ''614891469123651721'' ''6148914691236517206'')))) =
     [(1000, 18446744073709551600, 18446744073709551615)]"
  by code_simp

end
